theory Spec2Isabelle
  imports Main "HOL-Library.Log_Nat"
begin

section \<open>Python numbers\<close>

text \<open>
  The program is a Python script. Its integers are unbounded (\<open>int\<close>); its floats are
  IEEE-754 binary64 values. A finite float is modelled by the rational number it denotes,
  and every float operation rounds the exact result to the nearest double, ties to even.
  The two zeros are not distinguished. A negative zero arises in the program only as the
  product of a zero workload and a negative priority factor, where \<open>math.ceil\<close> turns
  it into the integer 0 as it does a positive zero; the priority written to the store is
  never a negative zero, and no divisor is a zero.
\<close>

datatype pyfloat = Fin rat | PosInf | NegInf | NaN

datatype error = OverflowError | ValueError | ZeroDivisionError

text \<open>Rounding a rational to the nearest integer, ties to the even one.\<close>

definition round_half_even :: "rat \<Rightarrow> int" where
  "round_half_even y =
     (let f = \<lfloor>y\<rfloor>; d = y - of_int f
      in if d < 1 / 2 then f else if 1 / 2 < d then f + 1 else if even f then f else f + 1)"

text \<open>The binary exponent of a positive rational: \<open>2 ^ e \<le> x < 2 ^ (e + 1)\<close>.\<close>

definition floor_log2 :: "rat \<Rightarrow> int" where
  "floor_log2 x =
     (let (a, b) = quotient_of x; k = bitlen a - bitlen b
      in if 2 powi k \<le> x then k else k - 1)"

text \<open>
  The double nearest to \<open>x\<close>, with the exponent range unbounded above: 53 significant bits
  for a normal number, multiples of \<open>2 ^ -1074\<close> below \<open>2 ^ -1022\<close>.
\<close>

definition round_double :: "rat \<Rightarrow> rat" where
  "round_double x =
     (if x = 0 then 0
      else let u = 2 powi (max (floor_log2 \<bar>x\<bar>) (- 1022) - 52)
           in of_int (round_half_even (x / u)) * u)"

text \<open>The result of a float operation whose exact value is \<open>x\<close>: it overflows to an infinity.\<close>

definition to_double :: "rat \<Rightarrow> pyfloat" where
  "to_double x =
     (let r = round_double x
      in if 2 ^ 1024 \<le> r then PosInf else if r \<le> - (2 ^ 1024) then NegInf else Fin r)"

text \<open>\<open>float(n)\<close>, also applied to the integer operand of a mixed operation: it raises.\<close>

definition float_of_int :: "int \<Rightarrow> error + pyfloat" where
  "float_of_int n =
     (let r = round_double (of_int n)
      in if 2 ^ 1024 \<le> \<bar>r\<bar> then Inl OverflowError else Inr (Fin r))"

text \<open>\<open>a / b\<close> on two integers: the correctly rounded quotient, or an exception.\<close>

definition int_truediv :: "int \<Rightarrow> int \<Rightarrow> error + pyfloat" where
  "int_truediv a b =
     (if b = 0 then Inl ZeroDivisionError
      else let r = round_double (of_int a / of_int b)
           in if 2 ^ 1024 \<le> \<bar>r\<bar> then Inl OverflowError else Inr (Fin r))"

fun float_mul :: "pyfloat \<Rightarrow> pyfloat \<Rightarrow> pyfloat" where
  "float_mul (Fin a) (Fin b) = to_double (a * b)"
| "float_mul NaN _ = NaN"
| "float_mul _ NaN = NaN"
| "float_mul (Fin a) PosInf = (if a = 0 then NaN else if 0 < a then PosInf else NegInf)"
| "float_mul (Fin a) NegInf = (if a = 0 then NaN else if 0 < a then NegInf else PosInf)"
| "float_mul PosInf (Fin b) = (if b = 0 then NaN else if 0 < b then PosInf else NegInf)"
| "float_mul NegInf (Fin b) = (if b = 0 then NaN else if 0 < b then NegInf else PosInf)"
| "float_mul PosInf PosInf = PosInf"
| "float_mul PosInf NegInf = NegInf"
| "float_mul NegInf PosInf = NegInf"
| "float_mul NegInf NegInf = PosInf"

fun float_add :: "pyfloat \<Rightarrow> pyfloat \<Rightarrow> pyfloat" where
  "float_add (Fin a) (Fin b) = to_double (a + b)"
| "float_add NaN _ = NaN"
| "float_add _ NaN = NaN"
| "float_add PosInf NegInf = NaN"
| "float_add NegInf PosInf = NaN"
| "float_add PosInf _ = PosInf"
| "float_add NegInf _ = NegInf"
| "float_add (Fin a) PosInf = PosInf"
| "float_add (Fin a) NegInf = NegInf"

fun float_neg :: "pyfloat \<Rightarrow> pyfloat" where
  "float_neg (Fin a) = Fin (- a)"
| "float_neg PosInf = NegInf"
| "float_neg NegInf = PosInf"
| "float_neg NaN = NaN"

definition float_sub :: "pyfloat \<Rightarrow> pyfloat \<Rightarrow> pyfloat" where
  "float_sub x y = float_add x (float_neg y)"

fun float_truediv :: "pyfloat \<Rightarrow> pyfloat \<Rightarrow> error + pyfloat" where
  "float_truediv x (Fin b) =
     (if b = 0 then Inl ZeroDivisionError
      else case x of
             Fin a \<Rightarrow> Inr (to_double (a / b))
           | PosInf \<Rightarrow> Inr (if 0 < b then PosInf else NegInf)
           | NegInf \<Rightarrow> Inr (if 0 < b then NegInf else PosInf)
           | NaN \<Rightarrow> Inr NaN)"
| "float_truediv (Fin a) PosInf = Inr (Fin 0)"
| "float_truediv (Fin a) NegInf = Inr (Fin 0)"
| "float_truediv _ _ = Inr NaN"

text \<open>Mixed operations convert the integer operand first.\<close>

definition int_mul_float :: "int \<Rightarrow> pyfloat \<Rightarrow> error + pyfloat" where
  "int_mul_float n y = (case float_of_int n of Inl e \<Rightarrow> Inl e | Inr x \<Rightarrow> Inr (float_mul x y))"

definition float_add_int :: "pyfloat \<Rightarrow> int \<Rightarrow> error + pyfloat" where
  "float_add_int x n = (case float_of_int n of Inl e \<Rightarrow> Inl e | Inr y \<Rightarrow> Inr (float_add x y))"

definition float_truediv_int :: "pyfloat \<Rightarrow> int \<Rightarrow> error + pyfloat" where
  "float_truediv_int x n = (case float_of_int n of Inl e \<Rightarrow> Inl e | Inr y \<Rightarrow> float_truediv x y)"

text \<open>\<open>math.ceil\<close>: an integer, \<open>OverflowError\<close> on an infinity, \<open>ValueError\<close> on a NaN.\<close>

fun math_ceil :: "pyfloat \<Rightarrow> error + int" where
  "math_ceil (Fin a) = Inr \<lceil>a\<rceil>"
| "math_ceil PosInf = Inl OverflowError"
| "math_ceil NegInf = Inl OverflowError"
| "math_ceil NaN = Inl ValueError"

section \<open>The task catalogue and the staffing computation\<close>

definition TASK_TIME :: "string \<rightharpoonup> int" where
  "TASK_TIME = map_of
     [(''Putaway 3002'', 20),
      (''Putaway 3043'', 15),
      (''Unload Shuttles'', 20),
      (''Unload 3002 Inbound'', 20),
      (''Unload 3043 Inbound'', 20),
      (''Load 3043 Outbound'', 20),
      (''Load 3002 Outbound'', 20),
      (''Load LTL Outbound'', 20),
      (''LTL Picks Same Day'', 15),
      (''LTL Picks Next Day'', 15),
      (''FTL Picks Same Day'', 25),
      (''FTL Picks Next Day'', 25),
      (''Export Live Loads Same Day'', 25),
      (''Export Live Loads Next Day'', 25),
      (''Export Drop Same Day'', 25),
      (''Export Drop Next Day'', 25)]"

definition WORK_MINUTES_PER_WORKER :: int where
  "WORK_MINUTES_PER_WORKER = 420"

text \<open>
  The arguments of the two functions are Python integers, as the sliders and the number
  input of the form produce them. \<open>priority_factor = (urgency * 1.5 + importance * 2) / 10\<close>
\<close>

definition priority_factor :: "int \<Rightarrow> int \<Rightarrow> error + pyfloat" where
  "priority_factor urgency importance =
     (case int_mul_float urgency (Fin (3 / 2)) of Inl e \<Rightarrow> Inl e
      | Inr a \<Rightarrow>
          (case float_add_int a (importance * 2) of Inl e \<Rightarrow> Inl e
           | Inr s \<Rightarrow> float_truediv_int s 10))"

definition calculate_people_needed :: "string \<Rightarrow> int \<Rightarrow> int \<Rightarrow> int \<Rightarrow> error + int" where
  "calculate_people_needed task quantity urgency importance =
     (case TASK_TIME task of
        None \<Rightarrow> Inr 1
      | Some time_per_task \<Rightarrow>
          (let total_time_needed = quantity * time_per_task
           in case priority_factor urgency importance of Inl e \<Rightarrow> Inl e
              | Inr pf \<Rightarrow>
                  (case int_truediv total_time_needed WORK_MINUTES_PER_WORKER of Inl e \<Rightarrow> Inl e
                   | Inr shifts \<Rightarrow>
                       (case math_ceil (float_mul shifts pf) of Inl e \<Rightarrow> Inl e
                        | Inr c \<Rightarrow> Inr (max 1 c)))))"

text \<open>
  The priority of \<open>update_task\<close>:
  \<open>(int(urgency) * 1.5) + (int(importance) * 2) - (int(days_until_due) * 0.5)\<close>,
  where \<open>int\<close> leaves an integer as it is. What the functions print to the console is
  not modelled.
\<close>

definition priority_score :: "int \<Rightarrow> int \<Rightarrow> int \<Rightarrow> error + pyfloat" where
  "priority_score urgency importance days_until_due =
     (case int_mul_float urgency (Fin (3 / 2)) of Inl e \<Rightarrow> Inl e
      | Inr a \<Rightarrow>
          (case float_add_int a (importance * 2) of Inl e \<Rightarrow> Inl e
           | Inr s \<Rightarrow>
               (case int_mul_float days_until_due (Fin (1 / 2)) of Inl e \<Rightarrow> Inl e
                | Inr c \<Rightarrow> Inr (float_sub s c))))"

text \<open>The formulas of the specification, in exact arithmetic.\<close>

definition spec_people_needed :: "int \<Rightarrow> int \<Rightarrow> int \<Rightarrow> int \<Rightarrow> int" where
  "spec_people_needed minutes_per_unit quantity urgency importance =
     max 1 \<lceil>(of_int (quantity * minutes_per_unit) / 420) *
             ((of_int urgency * (3 / 2) + of_int importance * 2) / 10 :: rat)\<rceil>"

definition spec_priority :: "int \<Rightarrow> int \<Rightarrow> int \<Rightarrow> rat" where
  "spec_priority urgency importance days_until_due =
     of_int urgency * (3 / 2) + of_int importance * 2 - of_int days_until_due * (1 / 2)"

section \<open>The task store\<close>

text \<open>
  The worksheet is a grid of cells addressed by 1-based row and column. Row 1 is the header
  \<open>Task, Urgency, Importance, Days Until Due, Priority, Quantity, People Needed\<close>, and the
  \<open>nrows\<close> rows below it are the records. A cell holds what was written to it. The store is
  taken to be reliable: a read or a write does not fail. \<open>writes\<close> is the sequence of
  \<open>update_cell\<close> calls made so far, oldest first.
\<close>

datatype cell = CInt int | CFloat pyfloat | CStr string

record sheet =
  cells :: "nat \<Rightarrow> nat \<Rightarrow> cell"
  nrows :: nat
  writes :: "(nat \<times> nat \<times> cell) list"

record task_row =
  Task :: cell
  Urgency :: cell
  Importance :: cell
  Days_Until_Due :: cell
  Priority :: cell
  Quantity :: cell
  People_Needed :: cell

definition record_at :: "sheet \<Rightarrow> nat \<Rightarrow> task_row" where
  "record_at s i =
     \<lparr>Task = cells s (i + 2) 1, Urgency = cells s (i + 2) 2, Importance = cells s (i + 2) 3,
      Days_Until_Due = cells s (i + 2) 4, Priority = cells s (i + 2) 5,
      Quantity = cells s (i + 2) 6, People_Needed = cells s (i + 2) 7\<rparr>"

definition get_all_records :: "sheet \<Rightarrow> task_row list" where
  "get_all_records s = map (record_at s) [0..<nrows s]"

definition update_cell :: "nat \<Rightarrow> nat \<Rightarrow> cell \<Rightarrow> sheet \<Rightarrow> sheet" where
  "update_cell r c v s =
     s\<lparr>cells := (cells s)(r := (cells s r)(c := v)), writes := writes s @ [(r, c, v)]\<rparr>"

section \<open>Update, Reset and Load\<close>

text \<open>
  The body of the loop of \<open>update_task\<close> at a matching row \<open>i\<close>. The line printed
  before the first write is left out. Python 3.11 and later refuse to format an integer of
  more than 4300 digits and raise \<open>ValueError\<close> there, so for such an input the program
  writes nothing; the inputs of the statements about the six writes stay below \<open>2 ^ 500\<close>.
\<close>

definition update_row ::
  "nat \<Rightarrow> string \<Rightarrow> int \<Rightarrow> int \<Rightarrow> int \<Rightarrow> int \<Rightarrow> sheet \<Rightarrow> (error + bool) \<times> sheet" where
  "update_row i task urgency importance days_until_due quantity s =
     (case priority_score urgency importance days_until_due of Inl e \<Rightarrow> (Inl e, s)
      | Inr priority \<Rightarrow>
          (case calculate_people_needed task quantity urgency importance of Inl e \<Rightarrow> (Inl e, s)
           | Inr people_needed \<Rightarrow>
               (Inr True,
                update_cell (i + 2) 7 (CInt people_needed)
                  (update_cell (i + 2) 6 (CInt quantity)
                    (update_cell (i + 2) 5 (CFloat priority)
                      (update_cell (i + 2) 4 (CInt days_until_due)
                        (update_cell (i + 2) 3 (CInt importance)
                          (update_cell (i + 2) 2 (CInt urgency) s))))))))"

text \<open>The loop over \<open>enumerate(existing_tasks)\<close>: the first row whose name is the task.\<close>

fun update_scan ::
  "(nat \<times> task_row) list \<Rightarrow> string \<Rightarrow> int \<Rightarrow> int \<Rightarrow> int \<Rightarrow> int \<Rightarrow> sheet \<Rightarrow> (error + bool) \<times> sheet" where
  "update_scan [] task urgency importance days_until_due quantity s = (Inr False, s)"
| "update_scan ((i, row) # rest) task urgency importance days_until_due quantity s =
     (if Task row = CStr task
      then update_row i task urgency importance days_until_due quantity s
      else update_scan rest task urgency importance days_until_due quantity s)"

definition update_task ::
  "string \<Rightarrow> int \<Rightarrow> int \<Rightarrow> int \<Rightarrow> int \<Rightarrow> sheet \<Rightarrow> (error + bool) \<times> sheet" where
  "update_task task urgency importance days_until_due quantity s =
     (let existing_tasks = get_all_records s
      in update_scan (enumerate 0 existing_tasks) task urgency importance days_until_due quantity s)"

definition reset_row :: "nat \<Rightarrow> sheet \<Rightarrow> sheet" where
  "reset_row i s =
     update_cell (i + 2) 7 (CInt 1)
       (update_cell (i + 2) 6 (CInt 0)
         (update_cell (i + 2) 5 (CInt 0)
           (update_cell (i + 2) 4 (CInt 0)
             (update_cell (i + 2) 3 (CInt 5)
               (update_cell (i + 2) 2 (CInt 5) s)))))"

definition reset_tasks :: "sheet \<Rightarrow> sheet" where
  "reset_tasks s =
     (let existing_tasks = get_all_records s
      in fold (\<lambda>(i, row). reset_row i) (enumerate 0 existing_tasks) s)"

text \<open>
  \<open>load_tasks\<close> hands the records to pandas. The three library calls are modelled on the
  cells a record can hold (an integer, a float or a text), column by column.

  \<open>pd.DataFrame(data)\<close> infers a type for each column. It walks the column from the top
  and converts every integer it meets to a double, which raises \<open>OverflowError\<close> for an
  integer beyond the doubles. At the first text, at an integer outside the 64-bit ranges
  and when a negative integer meets one above \<open>2 ^ 63 - 1\<close> it stops and keeps the column
  as objects, every cell as it is. Otherwise a column with a float holds doubles only,
  its integers converted, and a column of integers stays as it is.
\<close>

definition INT64_MIN :: int where
  "INT64_MIN = - (2 ^ 63)"

definition INT64_MAX :: int where
  "INT64_MAX = 2 ^ 63 - 1"

definition UINT64_MAX :: int where
  "UINT64_MAX = 2 ^ 64 - 1"

text \<open>
  The walk: the flags are "a float was seen", "a negative integer was seen" and "an integer
  above \<open>INT64_MAX\<close> was seen"; the result is \<open>None\<close> for an object column and the float
  flag otherwise.
\<close>

fun scan_objects :: "bool \<Rightarrow> bool \<Rightarrow> bool \<Rightarrow> cell list \<Rightarrow> error + bool option" where
  "scan_objects fl si ui [] = Inr (Some fl)"
| "scan_objects fl si ui (CStr t # cs) = Inr None"
| "scan_objects fl si ui (CFloat x # cs) = scan_objects True si ui cs"
| "scan_objects fl si ui (CInt n # cs) =
     (case float_of_int n of
        Inl e \<Rightarrow> Inl e
      | Inr x \<Rightarrow>
          (let si' = (si \<or> (INT64_MIN \<le> n \<and> n < 0));
               ui' = (ui \<or> (INT64_MAX < n \<and> n \<le> UINT64_MAX))
           in if (si' \<and> ui') \<or> UINT64_MAX < n \<or> n < INT64_MIN then Inr None
              else scan_objects fl si' ui' cs))"

definition as_float64 :: "cell \<Rightarrow> cell" where
  "as_float64 c = (case c of CInt n \<Rightarrow> CFloat (Fin (round_double (of_int n))) | _ \<Rightarrow> c)"

record column =
  is_object :: bool
  items :: "cell list"

definition infer_column :: "cell list \<Rightarrow> error + column" where
  "infer_column cs =
     (case scan_objects False False False cs of
        Inl e \<Rightarrow> Inl e
      | Inr None \<Rightarrow> Inr \<lparr>is_object = True, items = cs\<rparr>
      | Inr (Some fl) \<Rightarrow> Inr \<lparr>is_object = False, items = (if fl then map as_float64 cs else cs)\<rparr>)"

record frame =
  F_Task :: column
  F_Urgency :: column
  F_Importance :: column
  F_Days_Until_Due :: column
  F_Priority :: column
  F_Quantity :: column
  F_People_Needed :: column

definition and_then :: "error + 'a \<Rightarrow> ('a \<Rightarrow> error + 'b) \<Rightarrow> error + 'b" where
  "and_then r f = (case r of Inl e \<Rightarrow> Inl e | Inr x \<Rightarrow> f x)"

definition DataFrame :: "task_row list \<Rightarrow> error + frame" where
  "DataFrame data =
     and_then (infer_column (map Task data)) (\<lambda>t.
     and_then (infer_column (map Urgency data)) (\<lambda>u.
     and_then (infer_column (map Importance data)) (\<lambda>i.
     and_then (infer_column (map Days_Until_Due data)) (\<lambda>d.
     and_then (infer_column (map Priority data)) (\<lambda>p.
     and_then (infer_column (map Quantity data)) (\<lambda>q.
     and_then (infer_column (map People_Needed data)) (\<lambda>n.
       Inr \<lparr>F_Task = t, F_Urgency = u, F_Importance = i, F_Days_Until_Due = d,
            F_Priority = p, F_Quantity = q, F_People_Needed = n\<rparr>)))))))"

text \<open>
  \<open>pd.to_numeric(column, errors="coerce")\<close> leaves a numeric column as it is. In an
  object column it converts every integer to a double, which raises \<open>OverflowError\<close>
  beyond the doubles, keeps a float and parses a text; a text that does not parse
  becomes NaN. The parser of texts belongs to the library and is a parameter.
  \<open>get_all_records\<close> has already turned every cell that reads as a number into a number,
  so a text is not taken for an integer literal and the converted column holds doubles.
\<close>

fun coerce_cells :: "(string \<Rightarrow> pyfloat option) \<Rightarrow> cell list \<Rightarrow> error + cell list" where
  "coerce_cells parse [] = Inr []"
| "coerce_cells parse (c # cs) =
     and_then
       (case c of
          CInt n \<Rightarrow> and_then (float_of_int n) (\<lambda>x. Inr (CFloat x))
        | CFloat x \<Rightarrow> Inr (CFloat x)
        | CStr t \<Rightarrow> Inr (CFloat (case parse t of None \<Rightarrow> NaN | Some x \<Rightarrow> x)))
       (\<lambda>v. and_then (coerce_cells parse cs) (\<lambda>vs. Inr (v # vs)))"

definition to_numeric :: "(string \<Rightarrow> pyfloat option) \<Rightarrow> column \<Rightarrow> error + cell list" where
  "to_numeric parse col =
     (if is_object col then coerce_cells parse (items col) else Inr (items col))"

text \<open>\<open>.fillna(d)\<close> on the numeric column: a NaN becomes the float \<open>d\<close>.\<close>

definition fillna :: "rat \<Rightarrow> cell list \<Rightarrow> cell list" where
  "fillna d cs = map (\<lambda>c. if c = CFloat NaN then CFloat (Fin d) else c) cs"

record loaded_row =
  L_Task :: cell
  L_Urgency :: cell
  L_Importance :: cell
  L_Days_Until_Due :: cell
  L_Priority :: cell
  L_Quantity :: cell
  L_People_Needed :: cell

text \<open>The rows of the returned frame.\<close>

definition frame_rows ::
  "cell list \<Rightarrow> cell list \<Rightarrow> cell list \<Rightarrow> cell list \<Rightarrow> cell list \<Rightarrow> cell list \<Rightarrow> cell list \<Rightarrow>
   loaded_row list" where
  "frame_rows t u i d p q n =
     map (\<lambda>k. \<lparr>L_Task = t ! k, L_Urgency = u ! k, L_Importance = i ! k, L_Days_Until_Due = d ! k,
              L_Priority = p ! k, L_Quantity = q ! k, L_People_Needed = n ! k\<rparr>) [0..<length t]"

text \<open>
  The body of the \<open>try\<close>: the frame, then the four conversions in the order of the source.
  The columns of a frame have the length of the data, so every index of \<open>frame_rows\<close> is
  in range.
\<close>

definition load_body :: "(string \<Rightarrow> pyfloat option) \<Rightarrow> task_row list \<Rightarrow> error + loaded_row list" where
  "load_body parse data =
     and_then (DataFrame data) (\<lambda>df.
     and_then (to_numeric parse (F_Priority df)) (\<lambda>priority.
     and_then (to_numeric parse (F_Quantity df)) (\<lambda>quantity.
     and_then (to_numeric parse (F_People_Needed df)) (\<lambda>people_needed.
     and_then (to_numeric parse (F_Days_Until_Due df)) (\<lambda>days_until_due.
       Inr (frame_rows (items (F_Task df)) (items (F_Urgency df)) (items (F_Importance df))
              (fillna 0 days_until_due) (fillna 0 priority) (fillna 0 quantity)
              (fillna 1 people_needed)))))))"

text \<open>
  \<open>load_tasks\<close>: any exception inside the \<open>try\<close> is caught and the empty frame with the
  seven columns is returned. With no record the frame has no column and
  \<open>df["Priority"]\<close> raises \<open>KeyError\<close>.
\<close>

definition load_tasks :: "(string \<Rightarrow> pyfloat option) \<Rightarrow> sheet \<Rightarrow> loaded_row list" where
  "load_tasks parse s =
     (let data = get_all_records s
      in if data = [] then []
         else case load_body parse data of Inl e \<Rightarrow> [] | Inr rows \<Rightarrow> rows)"

text \<open>
  What a cell holds, whatever its type: the number, or the text. An integer within
  \<open>2 ^ 53\<close> is a double, so that no conversion changes what it holds.
\<close>

definition cell_value :: "cell \<Rightarrow> pyfloat + string" where
  "cell_value c = (case c of CInt n \<Rightarrow> Inl (Fin (of_int n)) | CFloat x \<Rightarrow> Inl x | CStr t \<Rightarrow> Inr t)"

definition moderate_cell :: "cell \<Rightarrow> bool" where
  "moderate_cell c = (case c of CInt n \<Rightarrow> \<bar>n\<bar> \<le> 2 ^ 53 | _ \<Rightarrow> True)"

definition moderate_row :: "task_row \<Rightarrow> bool" where
  "moderate_row row \<longleftrightarrow>
     moderate_cell (Task row) \<and> moderate_cell (Urgency row) \<and> moderate_cell (Importance row) \<and>
     moderate_cell (Days_Until_Due row) \<and> moderate_cell (Priority row) \<and>
     moderate_cell (Quantity row) \<and> moderate_cell (People_Needed row)"

text \<open>
  The number a stored cell stands for when it is read as a number: NaN for a text that
  does not parse, that is, for a value that is not numeric or is missing.
\<close>

definition number_of :: "(string \<Rightarrow> pyfloat option) \<Rightarrow> cell \<Rightarrow> pyfloat" where
  "number_of parse c =
     (case c of
        CInt n \<Rightarrow> Fin (of_int n)
      | CFloat x \<Rightarrow> x
      | CStr t \<Rightarrow> (case parse t of None \<Rightarrow> NaN | Some x \<Rightarrow> x))"

section \<open>Auxiliary notions\<close>

text \<open>
  An operation keeps the names when it leaves the number of records and column 1 of every
  row as they were and only appends writes to other columns to the log.
\<close>

definition names_kept :: "sheet \<Rightarrow> sheet \<Rightarrow> bool" where
  "names_kept s s' \<longleftrightarrow>
     nrows s' = nrows s \<and> (\<forall>r. cells s' r 1 = cells s r 1) \<and>
     (\<exists>ws. writes s' = writes s @ ws \<and> (\<forall>w \<in> set ws. fst (snd w) \<noteq> 1))"

text \<open>A worksheet with the given records and an empty log; every other cell is blank.\<close>

definition sheet_of :: "cell list list \<Rightarrow> sheet" where
  "sheet_of rows =
     \<lparr>cells = (\<lambda>r c. if 2 \<le> r \<and> r - 2 < length rows \<and> 1 \<le> c \<and> c - 1 < length (rows ! (r - 2))
                       then rows ! (r - 2) ! (c - 1) else CStr []),
      nrows = length rows, writes = []\<rparr>"

text \<open>
  A sample worksheet: a well-formed record, and a record whose numeric cells were edited
  by hand into text or left blank.
\<close>

definition example_sheet :: sheet where
  "example_sheet = sheet_of
     [[CStr ''Putaway 3002'', CInt 3, CInt 4, CInt 2, CFloat (Fin (23 / 2)), CInt 40, CInt 3],
      [CStr ''Unload Shuttles'', CStr ''high'', CInt 9, CStr ''soon'', CStr [], CStr ''n/a'', CStr []]]"

text \<open>
  Two worksheets with a text in the Quantity column and an integer that is not a double
  beside it: \<open>2 ^ 53 + 1\<close>, which a conversion rounds, and \<open>2 ^ 1024\<close>, which is beyond
  the doubles.
\<close>

definition rounding_sheet :: sheet where
  "rounding_sheet = sheet_of
     [[CStr ''Putaway 3002'', CInt 5, CInt 5, CInt 0, CInt 0, CInt (2 ^ 53 + 1), CInt 1],
      [CStr ''Unload Shuttles'', CInt 5, CInt 5, CInt 0, CInt 0, CStr ''n/a'', CInt 1]]"

definition overflow_sheet :: sheet where
  "overflow_sheet = sheet_of
     [[CStr ''Putaway 3002'', CInt 5, CInt 5, CInt 0, CInt 0, CStr ''n/a'', CInt 1],
      [CStr ''Unload Shuttles'', CInt 5, CInt 5, CInt 0, CInt 0, CInt (2 ^ 1024), CInt 1]]"

section \<open>Rounding to a double\<close>

text \<open>
  Facts about the rounding: \<open>floor_log2\<close> finds the binary exponent; rounding is
  monotone and commutes with negation; it leaves a number \<open>m * 2 ^ j\<close> with
  \<open>\<bar>m\<bar> \<le> 2 ^ 53\<close> as it is; it keeps a bound that is a power of two; and it moves a
  number below \<open>2 ^ k\<close> by at most \<open>2 ^ (k - 53)\<close>.
\<close>

lemma round_half_even_of_int: "round_half_even (of_int n) = n"
  by (simp add: round_half_even_def)

lemma round_half_even_le: "y \<le> of_int n \<Longrightarrow> round_half_even y \<le> n"
proof -
  assume h: "y \<le> of_int n"
  show ?thesis
  proof (cases "y = of_int n")
    case True
    then show ?thesis by (simp add: round_half_even_of_int)
  next
    case False
    with h have "y < of_int n" by simp
    then have "\<lfloor>y\<rfloor> < n" by (simp add: floor_less_iff)
    then show ?thesis
      by (auto simp: round_half_even_def Let_def)
  qed
qed

lemma round_half_even_ge: "of_int n \<le> y \<Longrightarrow> n \<le> round_half_even y"
proof -
  assume h: "of_int n \<le> y"
  then have "n \<le> \<lfloor>y\<rfloor>" by (simp add: le_floor_iff)
  then show ?thesis
    by (auto simp: round_half_even_def Let_def)
qed

lemma round_half_even_mono: "a \<le> b \<Longrightarrow> round_half_even a \<le> round_half_even b"
proof -
  assume h: "a \<le> b"
  then have fl: "\<lfloor>a\<rfloor> \<le> \<lfloor>b\<rfloor>" by (rule floor_mono)
  show ?thesis
  proof (cases "\<lfloor>a\<rfloor> = \<lfloor>b\<rfloor>")
    case True
    with h show ?thesis by (auto simp: round_half_even_def Let_def)
  next
    case False
    with fl have "\<lfloor>a\<rfloor> + 1 \<le> \<lfloor>b\<rfloor>" by simp
    moreover have "round_half_even a \<le> \<lfloor>a\<rfloor> + 1" by (auto simp: round_half_even_def Let_def)
    moreover have "\<lfloor>b\<rfloor> \<le> round_half_even b" by (auto simp: round_half_even_def Let_def)
    ultimately show ?thesis by linarith
  qed
qed

lemma round_half_even_minus: "round_half_even (- y) = - round_half_even y"
proof (cases "y \<in> \<int>")
  case True
  then obtain n where "y = of_int n" by (auto elim: Ints_cases)
  then show ?thesis
    using round_half_even_of_int[of "- n"] by (simp add: round_half_even_of_int)
next
  case False
  then have fl: "\<lfloor>- y\<rfloor> = - \<lfloor>y\<rfloor> - 1"
    by (simp add: floor_minus ceiling_altdef) (metis Ints_of_int)
  have lt: "of_int \<lfloor>y\<rfloor> < y" using False
    by (metis Ints_of_int floor_correct order_less_le)
  have "y < of_int \<lfloor>y\<rfloor> + 1" by linarith
  with lt show ?thesis
    by (auto simp: round_half_even_def Let_def fl)
qed

lemma pow2_pos: "(0::rat) < 2 powi k"
  by (simp add: zero_less_power_int)

lemma pow2_le_iff: "(2::rat) powi m \<le> 2 powi n \<longleftrightarrow> m \<le> n"
proof
  assume h: "(2::rat) powi m \<le> 2 powi n"
  show "m \<le> n"
  proof (rule ccontr)
    assume "\<not> m \<le> n"
    then have "n < m" by simp
    then have "(2::rat) powi n < 2 powi m" by (rule power_int_strict_increasing) simp
    with h show False by simp
  qed
next
  assume "m \<le> n"
  then show "(2::rat) powi m \<le> 2 powi n" by (rule power_int_increasing) simp
qed

lemma pow2_less_iff: "(2::rat) powi m < 2 powi n \<longleftrightarrow> m < n"
proof
  assume h: "(2::rat) powi m < 2 powi n"
  show "m < n"
  proof (rule ccontr)
    assume "\<not> m < n"
    then have "n \<le> m" by simp
    then have "(2::rat) powi n \<le> 2 powi m" by (rule power_int_increasing) simp
    with h show False by simp
  qed
next
  assume "m < n"
  then show "(2::rat) powi m < 2 powi n" by (rule power_int_strict_increasing) simp
qed

lemma pow2_add: "(2::rat) powi (a + b) = 2 powi a * 2 powi b"
  by (simp add: power_int_add)

lemma pow2_split: "0 \<le> k - e \<Longrightarrow> (2::rat) powi k = of_int (2 ^ nat (k - e)) * 2 powi e"
  using pow2_add[of "k - e" e] by (simp add: power_int_def)

lemma floor_log2_bounds:
  assumes "0 < x"
  shows "2 powi (floor_log2 x) \<le> x" and "x < 2 powi (floor_log2 x + 1)"
proof -
  obtain a b where q: "quotient_of x = (a, b)" by (cases "quotient_of x")
  have b: "0 < b" using q quotient_of_denom_pos by blast
  have x: "x = of_int a / of_int b" using q by (rule quotient_of_div)
  have a: "0 < a" using assms b x by (simp add: zero_less_divide_iff)
  define la where "la = bitlen a"
  define lb where "lb = bitlen b"
  have la1: "1 \<le> la" using a bitlen_eq_zero_iff[of a] bitlen_nonneg[of a] by (simp add: la_def)
  have lb1: "1 \<le> lb" using b bitlen_eq_zero_iff[of b] bitlen_nonneg[of b] by (simp add: lb_def)
  have alo: "(2::rat) powi (la - 1) \<le> of_int a"
  proof -
    have "2 ^ nat (la - 1) \<le> a" using bitlen_bounds[OF a] by (simp add: la_def)
    then have "(of_int (2 ^ nat (la - 1)) :: rat) \<le> of_int a" by (simp only: of_int_le_iff)
    then show ?thesis using la1 by (simp add: power_int_def)
  qed
  have ahi: "of_int a < (2::rat) powi la"
  proof -
    have "a < 2 ^ nat la" using bitlen_bounds[OF a] by (simp add: la_def)
    then have "(of_int a :: rat) < of_int (2 ^ nat la)" by (simp only: of_int_less_iff)
    then show ?thesis using la1 by (simp add: power_int_def)
  qed
  have blo: "(2::rat) powi (lb - 1) \<le> of_int b"
  proof -
    have "2 ^ nat (lb - 1) \<le> b" using bitlen_bounds[OF b] by (simp add: lb_def)
    then have "(of_int (2 ^ nat (lb - 1)) :: rat) \<le> of_int b" by (simp only: of_int_le_iff)
    then show ?thesis using lb1 by (simp add: power_int_def)
  qed
  have bhi: "of_int b < (2::rat) powi lb"
  proof -
    have "b < 2 ^ nat lb" using bitlen_bounds[OF b] by (simp add: lb_def)
    then have "(of_int b :: rat) < of_int (2 ^ nat lb)" by (simp only: of_int_less_iff)
    then show ?thesis using lb1 by (simp add: power_int_def)
  qed
  have bpos: "(0::rat) < of_int b" using b by simp
  have apos: "(0::rat) < of_int a" using a by simp
  have up: "x < (2::rat) powi (la - lb + 1)"
  proof -
    have "x * of_int b = of_int a" using x bpos by simp
    also have "\<dots> < 2 powi la" by (rule ahi)
    also have "\<dots> = 2 powi (la - lb + 1) * 2 powi (lb - 1)"
      by (simp flip: power_int_add)
    also have "\<dots> \<le> 2 powi (la - lb + 1) * of_int b"
      using blo by (simp add: mult_left_mono)
    finally show ?thesis using bpos by simp
  qed
  have lo: "(2::rat) powi (la - lb - 1) < x"
  proof -
    have "(2::rat) powi (la - lb - 1) * of_int b < 2 powi (la - lb - 1) * 2 powi lb"
      using bhi by (simp add: mult_strict_left_mono)
    also have "\<dots> = 2 powi (la - 1)"
      by (simp flip: power_int_add)
    also have "\<dots> \<le> of_int a" by (rule alo)
    also have "\<dots> = x * of_int b" using x bpos by simp
    finally show ?thesis using bpos by simp
  qed
  have fl: "floor_log2 x = (if 2 powi (la - lb) \<le> x then la - lb else la - lb - 1)"
    by (simp add: floor_log2_def q la_def lb_def Let_def)
  show "2 powi (floor_log2 x) \<le> x"
    using lo by (simp add: fl)
  show "x < 2 powi (floor_log2 x + 1)"
    using up by (simp add: fl)
qed

lemma floor_log2_le: "0 < x \<Longrightarrow> x \<le> 2 powi k \<Longrightarrow> floor_log2 x \<le> k"
proof -
  assume x: "0 < x" and h: "x \<le> 2 powi k"
  have "(2::rat) powi (floor_log2 x) \<le> 2 powi k"
    using floor_log2_bounds(1)[OF x] h by (rule order_trans)
  then show ?thesis by (simp add: pow2_le_iff)
qed

lemma floor_log2_ge: "0 < x \<Longrightarrow> 2 powi k \<le> x \<Longrightarrow> k \<le> floor_log2 x"
proof -
  assume x: "0 < x" and h: "2 powi k \<le> x"
  have "(2::rat) powi k < 2 powi (floor_log2 x + 1)"
    using h floor_log2_bounds(2)[OF x] by (rule le_less_trans)
  then have "k < floor_log2 x + 1" by (simp add: pow2_less_iff)
  then show ?thesis by simp
qed

lemma floor_log2_less: "0 < x \<Longrightarrow> x < 2 powi k \<Longrightarrow> floor_log2 x < k"
proof -
  assume x: "0 < x" and h: "x < 2 powi k"
  have "(2::rat) powi (floor_log2 x) < 2 powi k"
    using floor_log2_bounds(1)[OF x] h by (rule le_less_trans)
  then show ?thesis by (simp add: pow2_less_iff)
qed

lemma floor_log2_mono: "0 < x \<Longrightarrow> x \<le> y \<Longrightarrow> floor_log2 x \<le> floor_log2 y"
proof -
  assume x: "0 < x" and h: "x \<le> y"
  then have y: "0 < y" by simp
  have "2 powi (floor_log2 x) \<le> y" using floor_log2_bounds(1)[OF x] h by (rule order_trans)
  with y show ?thesis by (rule floor_log2_ge)
qed

lemma round_double_zero: "round_double 0 = 0"
  by (simp add: round_double_def)

lemma round_double_unfold:
  "x \<noteq> 0 \<Longrightarrow> e = max (floor_log2 \<bar>x\<bar>) (- 1022) \<Longrightarrow> u = 2 powi (e - 52) \<Longrightarrow>
   round_double x = of_int (round_half_even (x / u)) * u"
  by (simp add: round_double_def Let_def)

lemma round_double_minus: "round_double (- x) = - round_double x"
  by (simp add: round_double_def Let_def round_half_even_minus)

lemma round_double_nonneg: "0 \<le> x \<Longrightarrow> 0 \<le> round_double x"
proof (cases "x = 0")
  case True
  then show ?thesis by (simp add: round_double_def)
next
  case False
  assume x: "0 \<le> x"
  define e where "e = max (floor_log2 \<bar>x\<bar>) (- 1022)"
  define u :: rat where "u = 2 powi (e - 52)"
  have u: "0 < u" by (simp add: u_def pow2_pos)
  have rd: "round_double x = of_int (round_half_even (x / u)) * u"
    using False e_def u_def by (rule round_double_unfold)
  have "of_int 0 \<le> x / u" using x u by simp
  then have "0 \<le> round_half_even (x / u)" by (rule round_half_even_ge)
  then show ?thesis using u by (simp add: rd)
qed

lemma round_double_le_pow2:
  assumes x: "0 < x" and h: "x \<le> 2 powi k" and k: "- 1022 \<le> k"
  shows "round_double x \<le> 2 powi k"
proof -
  define e where "e = max (floor_log2 \<bar>x\<bar>) (- 1022)"
  define u :: rat where "u = 2 powi (e - 52)"
  have u: "0 < u" by (simp add: u_def pow2_pos)
  have rd: "round_double x = of_int (round_half_even (x / u)) * u"
    using x e_def u_def by (intro round_double_unfold) simp_all
  have ek: "e \<le> k" using floor_log2_le[OF x h] k x by (simp add: e_def)
  then have n: "0 \<le> k - (e - 52)" by simp
  have ku: "(2::rat) powi k = of_int (2 ^ nat (k - (e - 52))) * u"
    unfolding u_def using n by (rule pow2_split)
  have "x / u \<le> of_int (2 ^ nat (k - (e - 52)))"
    using h u by (simp add: ku pos_divide_le_eq)
  then have "round_half_even (x / u) \<le> 2 ^ nat (k - (e - 52))" by (rule round_half_even_le)
  then have "(of_int (round_half_even (x / u)) :: rat) \<le> of_int (2 ^ nat (k - (e - 52)))"
    by (simp only: of_int_le_iff)
  then have "of_int (round_half_even (x / u)) * u \<le> of_int (2 ^ nat (k - (e - 52))) * u"
    using u by (simp only: mult_le_cancel_right_pos)
  then show ?thesis by (simp only: rd ku)
qed

lemma round_double_ge_pow2:
  assumes h: "2 powi k \<le> x" and k: "- 1022 \<le> k"
  shows "2 powi k \<le> round_double x"
proof -
  have x: "0 < x" using pow2_pos[of k] h by (rule less_le_trans)
  define e where "e = max (floor_log2 \<bar>x\<bar>) (- 1022)"
  define u :: rat where "u = 2 powi (e - 52)"
  have u: "0 < u" by (simp add: u_def pow2_pos)
  have rd: "round_double x = of_int (round_half_even (x / u)) * u"
    using x e_def u_def by (intro round_double_unfold) simp_all
  have ke: "k \<le> floor_log2 x" using x h by (rule floor_log2_ge)
  then have e: "e = floor_log2 x" using k x by (simp add: e_def)
  have eu: "(2::rat) powi e = of_int (2 ^ nat (e - (e - 52))) * u"
    unfolding u_def by (rule pow2_split) simp
  have "2 powi e \<le> x" using floor_log2_bounds(1)[OF x] by (simp add: e)
  then have "of_int (2 ^ nat (e - (e - 52))) \<le> x / u"
    using u by (simp only: eu pos_le_divide_eq)
  then have "2 ^ nat (e - (e - 52)) \<le> round_half_even (x / u)" by (rule round_half_even_ge)
  then have "(of_int (2 ^ nat (e - (e - 52))) :: rat) \<le> of_int (round_half_even (x / u))"
    by (simp only: of_int_le_iff)
  then have "of_int (2 ^ nat (e - (e - 52))) * u \<le> of_int (round_half_even (x / u)) * u"
    using u by (simp only: mult_le_cancel_right_pos)
  then have "2 powi e \<le> round_double x" by (simp only: rd eu)
  moreover have "(2::rat) powi k \<le> 2 powi e" using ke by (simp add: e pow2_le_iff)
  ultimately show ?thesis by (rule order_trans[rotated])
qed

lemma round_double_exact:
  assumes m: "\<bar>m\<bar> < 2 ^ 53" and j: "- 1074 \<le> j"
  shows "round_double (of_int m * 2 powi j) = of_int m * 2 powi j"
proof (cases "m = 0")
  case True
  then show ?thesis by (simp add: round_double_def)
next
  case False
  define x :: rat where "x = of_int m * 2 powi j"
  have x0: "x \<noteq> 0" using False by (simp add: x_def)
  then have ax: "0 < \<bar>x\<bar>" by simp
  define e where "e = max (floor_log2 \<bar>x\<bar>) (- 1022)"
  define u :: rat where "u = 2 powi (e - 52)"
  have u: "0 < u" by (simp add: u_def pow2_pos)
  have rd: "round_double x = of_int (round_half_even (x / u)) * u"
    using x0 e_def u_def by (rule round_double_unfold)
  have "(of_int \<bar>m\<bar> :: rat) < of_int (2 ^ 53)" using m by (simp only: of_int_less_iff)
  then have "\<bar>x\<bar> < of_int (2 ^ nat (53 + j - j)) * 2 powi j"
    by (simp add: x_def abs_mult pow2_pos)
  also have "\<dots> = 2 powi (53 + j)"
    by (rule pow2_split[symmetric]) simp
  finally have "floor_log2 \<bar>x\<bar> < 53 + j" using ax by (intro floor_log2_less)
  then have ej: "e - 52 \<le> j" using j by (simp add: e_def)
  then have n: "0 \<le> j - (e - 52)" by simp
  have ju: "(2::rat) powi j = of_int (2 ^ nat (j - (e - 52))) * u"
    unfolding u_def using n by (rule pow2_split)
  have "x / u = of_int (m * 2 ^ nat (j - (e - 52)))"
    using u by (simp add: x_def ju)
  then have "round_half_even (x / u) = m * 2 ^ nat (j - (e - 52))"
    by (simp only: round_half_even_of_int)
  then have "of_int (round_half_even (x / u)) * u = x"
    by (simp add: x_def ju)
  then show ?thesis
    using rd by (simp add: x_def)
qed

lemma round_double_pow2: "- 1022 \<le> k \<Longrightarrow> round_double (2 powi k) = 2 powi k"
  using round_double_exact[of 1 k] by simp

lemma round_double_exact_le:
  assumes m: "\<bar>m\<bar> \<le> 2 ^ 53" and j: "- 1074 \<le> j"
  shows "round_double (of_int m * 2 powi j) = of_int m * 2 powi j"
proof (cases "\<bar>m\<bar> < 2 ^ 53")
  case True
  then show ?thesis using j by (rule round_double_exact)
next
  case False
  with m have "m = 2 ^ 53 \<or> m = - (2 ^ 53)" by linarith
  moreover have "(of_int (2 ^ 53) :: rat) * 2 powi j = 2 powi (53 + j)"
    using pow2_add[of 53 j] by simp
  moreover have "round_double (2 powi (53 + j)) = 2 powi (53 + j)"
    using j by (intro round_double_pow2) simp
  ultimately show ?thesis
    using round_double_minus[of "2 powi (53 + j)"] by auto
qed

lemma round_double_mono_pos:
  assumes x: "0 < x" and h: "x \<le> y"
  shows "round_double x \<le> round_double y"
proof -
  have y: "0 < y" using x h by simp
  define ex where "ex = max (floor_log2 \<bar>x\<bar>) (- 1022)"
  define ey where "ey = max (floor_log2 \<bar>y\<bar>) (- 1022)"
  define ux :: rat where "ux = 2 powi (ex - 52)"
  define uy :: rat where "uy = 2 powi (ey - 52)"
  have rx: "round_double x = of_int (round_half_even (x / ux)) * ux"
    using x ex_def ux_def by (intro round_double_unfold) simp_all
  have ry: "round_double y = of_int (round_half_even (y / uy)) * uy"
    using y ey_def uy_def by (intro round_double_unfold) simp_all
  have le: "ex \<le> ey" using floor_log2_mono[OF x h] x y by (simp add: ex_def ey_def)
  show ?thesis
  proof (cases "ex = ey")
    case True
    then have u: "uy = ux" by (simp add: ux_def uy_def)
    have up: "0 < ux" by (simp add: ux_def pow2_pos)
    have "x / ux \<le> y / ux" using h up by (simp add: divide_right_mono)
    then have "round_half_even (x / ux) \<le> round_half_even (y / ux)" by (rule round_half_even_mono)
    then have "(of_int (round_half_even (x / ux)) :: rat) \<le> of_int (round_half_even (y / ux))"
      by (simp only: of_int_le_iff)
    then show ?thesis using up by (simp add: rx ry u)
  next
    case False
    with le have lt: "ex + 1 \<le> ey" by simp
    then have eyf: "ey = floor_log2 y" "- 1022 \<le> ey" using y by (auto simp: ey_def ex_def)
    have "x < 2 powi (floor_log2 x + 1)" using x by (rule floor_log2_bounds(2))
    also have "\<dots> \<le> 2 powi (ex + 1)" using x by (simp add: pow2_le_iff ex_def)
    finally have "x \<le> 2 powi (ex + 1)" by simp
    then have "round_double x \<le> 2 powi (ex + 1)"
      using x by (intro round_double_le_pow2) (simp_all add: ex_def)
    also have "\<dots> \<le> 2 powi ey" using lt by (simp add: pow2_le_iff)
    also have "\<dots> \<le> round_double y"
      using floor_log2_bounds(1)[OF y] eyf by (intro round_double_ge_pow2) simp_all
    finally show ?thesis .
  qed
qed

lemma round_double_mono: "x \<le> y \<Longrightarrow> round_double x \<le> round_double y"
proof -
  assume h: "x \<le> y"
  consider "0 < x" | "x \<le> 0" "0 \<le> y" | "y < 0" by linarith
  then show ?thesis
  proof cases
    case 1
    then show ?thesis using h by (rule round_double_mono_pos)
  next
    case 2
    have "0 \<le> round_double (- x)" using 2 by (intro round_double_nonneg) simp
    then have "round_double x \<le> 0" by (simp add: round_double_minus)
    also have "0 \<le> round_double y" using 2 by (intro round_double_nonneg)
    finally show ?thesis .
  next
    case 3
    then have "round_double (- y) \<le> round_double (- x)"
      using h by (intro round_double_mono_pos) simp_all
    then show ?thesis by (simp add: round_double_minus)
  qed
qed

lemma round_double_abs_le_pow2:
  assumes h: "\<bar>x\<bar> \<le> 2 powi k" and k: "- 1022 \<le> k"
  shows "\<bar>round_double x\<bar> \<le> 2 powi k"
proof -
  consider "0 < x" | "x = 0" | "x < 0" by linarith
  then show ?thesis
  proof cases
    case 1
    then have "round_double x \<le> 2 powi k" using h k by (intro round_double_le_pow2) simp_all
    moreover have "0 \<le> round_double x" using 1 by (intro round_double_nonneg) simp
    ultimately show ?thesis by simp
  next
    case 2
    then show ?thesis using pow2_pos[of k] by (simp add: round_double_zero)
  next
    case 3
    then have "round_double (- x) \<le> 2 powi k" using h k by (intro round_double_le_pow2) simp_all
    moreover have "0 \<le> round_double (- x)" using 3 by (intro round_double_nonneg) simp
    ultimately show ?thesis by (simp add: round_double_minus)
  qed
qed

lemma round_half_even_error: "\<bar>of_int (round_half_even y) - y\<bar> \<le> 1 / 2"
proof -
  have "of_int \<lfloor>y\<rfloor> \<le> y" "y < of_int \<lfloor>y\<rfloor> + 1" by linarith+
  then show ?thesis
    by (auto simp: round_half_even_def Let_def abs_le_iff)
qed

lemma round_double_abs_error:
  assumes h: "\<bar>x\<bar> \<le> 2 powi k" and k: "- 1022 \<le> k"
  shows "\<bar>round_double x - x\<bar> \<le> 2 powi (k - 53)"
proof (cases "x = 0")
  case True
  then show ?thesis using pow2_pos[of "k - 53"] by (simp add: round_double_zero)
next
  case False
  then have ax: "0 < \<bar>x\<bar>" by simp
  define e where "e = max (floor_log2 \<bar>x\<bar>) (- 1022)"
  define u :: rat where "u = 2 powi (e - 52)"
  have u: "0 < u" by (simp add: u_def pow2_pos)
  have rd: "round_double x = of_int (round_half_even (x / u)) * u"
    using False e_def u_def by (rule round_double_unfold)
  have ek: "e \<le> k" using floor_log2_le[OF ax h] k by (simp add: e_def)
  have "round_double x - x = (of_int (round_half_even (x / u)) - x / u) * u"
    using u by (simp add: rd left_diff_distrib)
  then have "\<bar>round_double x - x\<bar> = \<bar>of_int (round_half_even (x / u)) - x / u\<bar> * u"
    using u by (simp add: abs_mult)
  also have "\<dots> \<le> (1 / 2) * u"
    using round_half_even_error[of "x / u"] u by (intro mult_right_mono) simp_all
  also have "\<dots> = 2 powi (e - 53)"
    using pow2_add[of "- 1" "e - 52"] by (simp add: u_def)
  also have "\<dots> \<le> 2 powi (k - 53)" using ek by (simp add: pow2_le_iff)
  finally show ?thesis .
qed

lemma product_rounding_close:
  fixes A B :: rat
  assumes A: "\<bar>A\<bar> \<le> 2 powi 49" and B: "\<bar>B\<bar> \<le> 2 powi 2"
  shows "\<bar>round_double (round_double A * round_double B) - A * B\<bar> < 1"
proof -
  define a where "a = round_double A"
  define b where "b = round_double B"
  have ea: "\<bar>a - A\<bar> \<le> 2 powi (49 - 53)" unfolding a_def using A by (rule round_double_abs_error) simp
  have eb: "\<bar>b - B\<bar> \<le> 2 powi (2 - 53)" unfolding b_def using B by (rule round_double_abs_error) simp
  have ba: "\<bar>a\<bar> \<le> 2 powi 49" unfolding a_def using A by (rule round_double_abs_le_pow2) simp
  have bb: "\<bar>b\<bar> \<le> 2 powi 2" unfolding b_def using B by (rule round_double_abs_le_pow2) simp
  have "\<bar>a * b\<bar> \<le> 2 powi 49 * 2 powi 2"
    unfolding abs_mult using ba bb by (intro mult_mono) simp_all
  also have "\<dots> = 2 powi 51" using pow2_add[of 49 2] by simp
  finally have ev: "\<bar>round_double (a * b) - a * b\<bar> \<le> 2 powi (51 - 53)"
    by (rule round_double_abs_error) simp
  have "a * b - A * B = a * (b - B) + (a - A) * B" by (simp add: algebra_simps)
  then have "\<bar>a * b - A * B\<bar> \<le> \<bar>a\<bar> * \<bar>b - B\<bar> + \<bar>a - A\<bar> * \<bar>B\<bar>"
    using abs_triangle_ineq[of "a * (b - B)" "(a - A) * B"] by (simp add: abs_mult)
  also have "\<dots> \<le> 2 powi 49 * 2 powi (2 - 53) + 2 powi (49 - 53) * 2 powi 2"
    using ba eb ea B by (intro add_mono mult_mono) simp_all
  finally have ep: "\<bar>a * b - A * B\<bar> \<le> 2 powi 49 * 2 powi (2 - 53) + 2 powi (49 - 53) * 2 powi 2" .
  have "\<bar>round_double (a * b) - A * B\<bar> \<le> \<bar>round_double (a * b) - a * b\<bar> + \<bar>a * b - A * B\<bar>"
    by simp
  also have "\<dots> \<le> 2 powi (51 - 53) + (2 powi 49 * 2 powi (2 - 53) + 2 powi (49 - 53) * 2 powi 2)"
    using ev ep by (rule add_mono)
  also have "\<dots> < 1" by (simp add: power_int_minus)
  finally show ?thesis unfolding a_def b_def .
qed

lemma ceiling_close:
  fixes v x :: rat
  assumes "\<bar>v - x\<bar> < 1"
  shows "\<bar>max 1 \<lceil>v\<rceil> - max 1 \<lceil>x\<rceil>\<bar> \<le> (1::int)"
proof -
  have le: "v \<le> x + 1" "x \<le> v + 1" using assms by (simp_all add: abs_less_iff)
  have "\<lceil>v\<rceil> \<le> \<lceil>x + 1\<rceil>" using le(1) by (rule ceiling_mono)
  moreover have "\<lceil>x\<rceil> \<le> \<lceil>v + 1\<rceil>" using le(2) by (rule ceiling_mono)
  ultimately have c: "\<lceil>v\<rceil> \<le> \<lceil>x\<rceil> + 1" "\<lceil>x\<rceil> \<le> \<lceil>v\<rceil> + 1" by simp_all
  define cv where "cv = \<lceil>v\<rceil>"
  define cx where "cx = \<lceil>x\<rceil>"
  have "cv \<le> cx + 1" "cx \<le> cv + 1" using c by (simp_all only: cv_def cx_def)
  then have "\<bar>max 1 cv - max 1 cx\<bar> \<le> 1" by linarith
  then show ?thesis by (simp only: cv_def cx_def)
qed

section \<open>The float operations on integers of moderate size\<close>

text \<open>
  On integers up to \<open>2 ^ 50\<close> in magnitude the conversions to a float and the sums of
  half-integers that the program forms are exact. This gives the value of the priority,
  of the priority factor and of the staffing computation. On integers up to \<open>2 ^ 500\<close>
  no operation overflows, so both computations return.
\<close>

lemma to_double_fin:
  assumes h: "\<bar>x\<bar> \<le> 2 powi k" and k: "- 1022 \<le> k" "k < 1024"
  shows "to_double x = Fin (round_double x)"
proof -
  have "\<bar>round_double x\<bar> \<le> 2 powi k" using h k(1) by (rule round_double_abs_le_pow2)
  also have "\<dots> < 2 powi 1024" using k(2) by (simp only: pow2_less_iff)
  finally have "\<bar>round_double x\<bar> < 2 ^ 1024" by simp
  then show ?thesis by (simp add: to_double_def Let_def abs_less_iff)
qed

lemma half_exact:
  assumes m: "\<bar>m\<bar> \<le> 2 ^ 53"
  shows "round_double (of_int m / 2) = of_int m / 2" and "to_double (of_int m / 2) = Fin (of_int m / 2)"
proof -
  have eq: "(of_int m / 2 :: rat) = of_int m * 2 powi (- 1)" by simp
  show rd: "round_double (of_int m / 2) = of_int m / 2"
    unfolding eq using m by (rule round_double_exact_le) simp
  have "(of_int \<bar>m\<bar> :: rat) \<le> of_int (2 ^ 53)" using m by (simp only: of_int_le_iff)
  then have "\<bar>of_int m / 2 :: rat\<bar> \<le> 2 powi 53" by simp
  then have "to_double (of_int m / 2) = Fin (round_double (of_int m / 2))"
    by (rule to_double_fin) simp_all
  then show "to_double (of_int m / 2) = Fin (of_int m / 2)" by (simp only: rd)
qed

lemma float_of_int_exact:
  assumes n: "\<bar>n\<bar> \<le> 2 ^ 53"
  shows "float_of_int n = Inr (Fin (of_int n))"
proof -
  have rd: "round_double (of_int n) = of_int n"
    using round_double_exact_le[OF n, of 0] by simp
  have "(of_int \<bar>n\<bar> :: rat) \<le> of_int (2 ^ 53)" using n by (simp only: of_int_le_iff)
  then have "\<bar>of_int n :: rat\<bar> < 2 ^ 1024" by simp
  then show ?thesis by (simp add: float_of_int_def rd)
qed

lemma int_truediv_fin:
  assumes b: "b \<noteq> 0" and h: "\<bar>of_int a / of_int b :: rat\<bar> \<le> 2 powi k" and k: "- 1022 \<le> k" "k < 1024"
  shows "int_truediv a b = Inr (Fin (round_double (of_int a / of_int b)))"
proof -
  have "\<bar>round_double (of_int a / of_int b)\<bar> \<le> 2 powi k"
    using h k(1) by (rule round_double_abs_le_pow2)
  also have "\<dots> < 2 powi 1024" using k(2) by (simp only: pow2_less_iff)
  finally have "\<bar>round_double (of_int a / of_int b)\<bar> < 2 ^ 1024" by simp
  then show ?thesis using b by (simp add: int_truediv_def Let_def)
qed

lemma int_truediv_overflow:
  assumes b: "b \<noteq> 0" and h: "2 powi 1024 \<le> \<bar>of_int a / of_int b :: rat\<bar>"
  shows "int_truediv a b = Inl OverflowError"
proof -
  define x :: rat where "x = of_int a / of_int b"
  have "2 powi 1024 \<le> \<bar>round_double x\<bar>"
  proof (cases "0 \<le> x")
    case True
    then have "2 powi 1024 \<le> round_double x"
      using h unfolding x_def by (intro round_double_ge_pow2) simp_all
    then show ?thesis by simp
  next
    case False
    then have "2 powi 1024 \<le> round_double (- x)"
      using h unfolding x_def by (intro round_double_ge_pow2) simp_all
    then show ?thesis by (simp add: round_double_minus)
  qed
  then show ?thesis using b by (simp add: int_truediv_def Let_def flip: x_def)
qed

lemma TASK_TIME_range: "TASK_TIME task = Some m \<Longrightarrow> m = 15 \<or> m = 20 \<or> m = 25"
  by (auto simp: TASK_TIME_def split: if_splits)

lemma weighted_sum_exact:
  assumes u: "\<bar>u\<bar> \<le> 2 ^ 50" and i: "\<bar>i\<bar> \<le> 2 ^ 50"
  shows "int_mul_float u (Fin (3 / 2)) = Inr (Fin (of_int u * (3 / 2)))"
    and "float_add_int (Fin (of_int u * (3 / 2))) (i * 2) = Inr (Fin (of_int u * (3 / 2) + of_int i * 2))"
proof -
  have fu: "float_of_int u = Inr (Fin (of_int u))" using u by (intro float_of_int_exact) simp
  have "\<bar>3 * u\<bar> \<le> 2 ^ 53" using u by simp
  then have "to_double (of_int (3 * u) / 2) = Fin (of_int (3 * u) / 2)" by (rule half_exact(2))
  then show "int_mul_float u (Fin (3 / 2)) = Inr (Fin (of_int u * (3 / 2)))"
    by (simp add: int_mul_float_def fu mult.commute)
  have fi: "float_of_int (i * 2) = Inr (Fin (of_int (i * 2)))" using i by (intro float_of_int_exact) simp
  have b: "\<bar>3 * u + 4 * i\<bar> \<le> 2 ^ 53" using u i by simp
  have eq: "(of_int (3 * u + 4 * i) / 2 :: rat) = of_int u * (3 / 2) + of_int i * 2"
    by (simp add: field_simps)
  have "to_double (of_int u * (3 / 2) + of_int i * 2) = Fin (of_int u * (3 / 2) + of_int i * 2)"
    using half_exact(2)[OF b] unfolding eq .
  then show "float_add_int (Fin (of_int u * (3 / 2))) (i * 2) = Inr (Fin (of_int u * (3 / 2) + of_int i * 2))"
    by (simp add: float_add_int_def fi)
qed

lemma priority_score_exact:
  assumes u: "\<bar>u\<bar> \<le> 2 ^ 50" and i: "\<bar>i\<bar> \<le> 2 ^ 50" and d: "\<bar>d\<bar> \<le> 2 ^ 50"
  shows "priority_score u i d = Inr (Fin (spec_priority u i d))"
proof -
  have fd: "float_of_int d = Inr (Fin (of_int d))" using d by (intro float_of_int_exact) simp
  have "\<bar>d\<bar> \<le> 2 ^ 53" using d by simp
  then have "to_double (of_int d / 2) = Fin (of_int d / 2)" by (rule half_exact(2))
  then have c: "int_mul_float d (Fin (1 / 2)) = Inr (Fin (of_int d / 2))"
    by (simp add: int_mul_float_def fd)
  have b: "\<bar>3 * u + 4 * i - d\<bar> \<le> 2 ^ 53" using u i d by simp
  have eq: "(of_int (3 * u + 4 * i - d) / 2 :: rat) = of_int u * (3 / 2) + of_int i * 2 + - (of_int d / 2)"
    by (simp add: field_simps)
  have "to_double (of_int u * (3 / 2) + of_int i * 2 + - (of_int d / 2))
      = Fin (of_int u * (3 / 2) + of_int i * 2 + - (of_int d / 2))"
    using half_exact(2)[OF b] unfolding eq .
  then have "float_sub (Fin (of_int u * (3 / 2) + of_int i * 2)) (Fin (of_int d / 2))
      = Fin (of_int u * (3 / 2) + of_int i * 2 - of_int d / 2)"
    by (simp add: float_sub_def)
  then show ?thesis
    using weighted_sum_exact[OF u i] c by (simp add: priority_score_def spec_priority_def)
qed

lemma priority_factor_value:
  assumes u: "\<bar>u\<bar> \<le> 2 ^ 50" and i: "\<bar>i\<bar> \<le> 2 ^ 50"
  shows "priority_factor u i = Inr (Fin (round_double ((of_int u * (3 / 2) + of_int i * 2) / 10)))"
    and "\<bar>round_double ((of_int u * (3 / 2) + of_int i * 2) / 10)\<bar> \<le> 2 powi 52"
proof -
  define s :: rat where "s = of_int u * (3 / 2) + of_int i * 2"
  have "(of_int \<bar>u\<bar> :: rat) \<le> of_int (2 ^ 50)" using u by (simp only: of_int_le_iff)
  moreover have "(of_int \<bar>i\<bar> :: rat) \<le> of_int (2 ^ 50)" using i by (simp only: of_int_le_iff)
  ultimately have "\<bar>s\<bar> \<le> 2 ^ 50 * (3 / 2) + 2 ^ 50 * 2"
    unfolding s_def by (intro order_trans[OF abs_triangle_ineq] add_mono) (simp_all add: abs_mult)
  then have b: "\<bar>s / 10\<bar> \<le> 2 powi 52" by simp
  have f10: "float_of_int 10 = Inr (Fin 10)" using float_of_int_exact[of 10] by simp
  have "to_double (s / 10) = Fin (round_double (s / 10))" using b by (rule to_double_fin) simp_all
  then have "float_truediv_int (Fin s) 10 = Inr (Fin (round_double (s / 10)))"
    by (simp add: float_truediv_int_def f10)
  then show "priority_factor u i = Inr (Fin (round_double ((of_int u * (3 / 2) + of_int i * 2) / 10)))"
    using weighted_sum_exact[OF u i] by (simp add: priority_factor_def s_def)
  show "\<bar>round_double ((of_int u * (3 / 2) + of_int i * 2) / 10)\<bar> \<le> 2 powi 52"
    using b unfolding s_def by (rule round_double_abs_le_pow2) simp
qed

lemma calculate_people_needed_value:
  assumes t: "TASK_TIME task = Some m"
    and q: "\<bar>q\<bar> \<le> 2 ^ 900" and u: "\<bar>u\<bar> \<le> 2 ^ 50" and i: "\<bar>i\<bar> \<le> 2 ^ 50"
  shows "calculate_people_needed task q u i =
    Inr (max 1 \<lceil>round_double (round_double (of_int (q * m) / 420) *
                                round_double ((of_int u * (3 / 2) + of_int i * 2) / 10))\<rceil>)"
proof -
  define a :: rat where "a = round_double (of_int (q * m) / 420)"
  define b :: rat where "b = round_double ((of_int u * (3 / 2) + of_int i * 2) / 10)"
  have m: "0 \<le> m" "m \<le> 25" using TASK_TIME_range[OF t] by auto
  have "(of_int \<bar>q\<bar> :: rat) \<le> of_int (2 ^ 900)" using q by (simp only: of_int_le_iff)
  then have q': "\<bar>of_int q :: rat\<bar> \<le> 2 ^ 900" by simp
  have m': "(0::rat) \<le> of_int m" "(of_int m :: rat) \<le> 25" using m by simp_all
  have "\<bar>of_int (q * m) / of_int 420 :: rat\<bar> = \<bar>of_int q\<bar> * (of_int m / 420)"
    using m' by (simp add: abs_mult)
  also have "\<dots> \<le> 2 ^ 900 * 1"
    using q' m' by (intro mult_mono) simp_all
  finally have qb: "\<bar>of_int (q * m) / of_int 420 :: rat\<bar> \<le> 2 powi 900" by simp
  have sh: "int_truediv (q * m) 420 = Inr (Fin a)"
    unfolding a_def using int_truediv_fin[OF _ qb] by simp
  have ab: "\<bar>a\<bar> \<le> 2 powi 900"
    unfolding a_def using round_double_abs_le_pow2[OF qb] by simp
  have pf: "priority_factor u i = Inr (Fin b)"
    unfolding b_def using u i by (rule priority_factor_value(1))
  have bb: "\<bar>b\<bar> \<le> 2 powi 52"
    unfolding b_def using u i by (rule priority_factor_value(2))
  have "\<bar>a * b\<bar> \<le> 2 powi 900 * 2 powi 52"
    unfolding abs_mult using ab bb by (intro mult_mono) simp_all
  also have "\<dots> = 2 powi 952" using pow2_add[of 900 52] by simp
  finally have "to_double (a * b) = Fin (round_double (a * b))"
    by (rule to_double_fin) simp_all
  then have "calculate_people_needed task q u i = Inr (max 1 \<lceil>round_double (a * b)\<rceil>)"
    using t sh pf
    by (simp add: calculate_people_needed_def WORK_MINUTES_PER_WORKER_def Let_def)
  then show ?thesis unfolding a_def b_def .
qed

lemma people_needed_formula_close:
  assumes m: "m = 15 \<or> m = 20 \<or> m = 25" and q: "\<bar>q\<bar> \<le> 2 ^ 53" and u: "\<bar>u\<bar> \<le> 10" and i: "\<bar>i\<bar> \<le> 10"
  shows "\<bar>max 1 \<lceil>round_double (round_double (of_int (q * m) / 420) *
                                round_double ((of_int u * (3 / 2) + of_int i * 2) / 10))\<rceil>
          - spec_people_needed m q u i\<bar> \<le> 1"
proof -
  have "(of_int \<bar>q\<bar> :: rat) \<le> of_int (2 ^ 53)" using q by (simp only: of_int_le_iff)
  then have q': "\<bar>of_int q :: rat\<bar> \<le> 2 ^ 53" by simp
  have m': "(0::rat) \<le> of_int m" "(of_int m :: rat) / 420 \<le> 1 / 16" using m by auto
  have "\<bar>of_int (q * m) / 420 :: rat\<bar> = \<bar>of_int q\<bar> * (of_int m / 420)"
    using m'(1) by (simp add: abs_mult)
  also have "\<dots> \<le> 2 ^ 53 * (1 / 16)"
    using q' m' by (intro mult_mono) simp_all
  finally have A: "\<bar>of_int (q * m) / 420 :: rat\<bar> \<le> 2 powi 49" by simp
  have "(of_int \<bar>u\<bar> :: rat) \<le> of_int 10" using u by (simp only: of_int_le_iff)
  moreover have "(of_int \<bar>i\<bar> :: rat) \<le> of_int 10" using i by (simp only: of_int_le_iff)
  ultimately have "\<bar>of_int u * (3 / 2) + of_int i * 2 :: rat\<bar> \<le> 10 * (3 / 2) + 10 * 2"
    by (intro order_trans[OF abs_triangle_ineq] add_mono) (simp_all add: abs_mult)
  then have B: "\<bar>(of_int u * (3 / 2) + of_int i * 2) / 10 :: rat\<bar> \<le> 2 powi 2" by simp
  have "\<bar>round_double (round_double (of_int (q * m) / 420) *
                                round_double ((of_int u * (3 / 2) + of_int i * 2) / 10))
        - (of_int (q * m) / 420) * ((of_int u * (3 / 2) + of_int i * 2) / 10)\<bar> < 1"
    using A B by (rule product_rounding_close)
  then show ?thesis unfolding spec_people_needed_def by (rule ceiling_close)
qed

lemma of_int_abs_le_pow2:
  assumes "\<bar>n\<bar> \<le> 2 ^ k"
  shows "\<bar>of_int n :: rat\<bar> \<le> 2 powi (int k)"
proof -
  have "(of_int \<bar>n\<bar> :: rat) \<le> of_int (2 ^ k)" using assms by (simp only: of_int_le_iff)
  then show ?thesis by simp
qed

lemma to_double_bounded:
  assumes "\<bar>x\<bar> \<le> 2 powi k" and "- 1022 \<le> k" and "k < 1024"
  shows "\<exists>r. to_double x = Fin r \<and> \<bar>r\<bar> \<le> 2 powi k"
  using to_double_fin[OF assms] round_double_abs_le_pow2[OF assms(1,2)] by blast

lemma float_of_int_bounded:
  assumes "\<bar>of_int n :: rat\<bar> \<le> 2 powi k" and "- 1022 \<le> k" and "k < 1024"
  shows "\<exists>r. float_of_int n = Inr (Fin r) \<and> \<bar>r\<bar> \<le> 2 powi k"
proof -
  have b: "\<bar>round_double (of_int n)\<bar> \<le> 2 powi k" using assms(1,2) by (rule round_double_abs_le_pow2)
  also have "\<dots> < 2 powi 1024" using assms(3) by (simp only: pow2_less_iff)
  finally have "\<bar>round_double (of_int n)\<bar> < 2 ^ 1024" by simp
  then show ?thesis using b by (simp add: float_of_int_def Let_def)
qed

lemma weighted_sum_bounded:
  assumes u: "\<bar>u\<bar> \<le> 2 ^ 500" and i: "\<bar>i\<bar> \<le> 2 ^ 500"
  shows "\<exists>a s. int_mul_float u (Fin (3 / 2)) = Inr (Fin a) \<and>
               float_add_int (Fin a) (i * 2) = Inr (Fin s) \<and> \<bar>s\<bar> \<le> 2 powi 502"
proof -
  have "\<bar>of_int u :: rat\<bar> \<le> 2 powi 500" using of_int_abs_le_pow2[OF u] by simp
  then obtain ru where ru: "float_of_int u = Inr (Fin ru)" "\<bar>ru\<bar> \<le> 2 powi 500"
    using float_of_int_bounded[of u 500] by auto
  have "\<bar>ru * (3 / 2)\<bar> \<le> 2 powi 500 * 2"
    unfolding abs_mult using ru(2) by (intro mult_mono) simp_all
  also have "\<dots> = 2 powi 501" using pow2_add[of 500 1] by simp
  finally obtain a where a: "to_double (ru * (3 / 2)) = Fin a" "\<bar>a\<bar> \<le> 2 powi 501"
    using to_double_bounded[of "ru * (3 / 2)" 501] by auto
  have "\<bar>of_int (i * 2) :: rat\<bar> \<le> 2 powi 500 * 2"
    using of_int_abs_le_pow2[OF i] by (simp add: abs_mult)
  also have "\<dots> = 2 powi 501" using pow2_add[of 500 1] by simp
  finally obtain ri where ri: "float_of_int (i * 2) = Inr (Fin ri)" "\<bar>ri\<bar> \<le> 2 powi 501"
    using float_of_int_bounded[of "i * 2" 501] by auto
  have "\<bar>a + ri\<bar> \<le> 2 powi 501 + 2 powi 501"
    using a(2) ri(2) by (intro order_trans[OF abs_triangle_ineq] add_mono)
  also have "\<dots> = 2 powi 502" using pow2_add[of 501 1] by simp
  finally obtain s where s: "to_double (a + ri) = Fin s" "\<bar>s\<bar> \<le> 2 powi 502"
    using to_double_bounded[of "a + ri" 502] by auto
  have "int_mul_float u (Fin (3 / 2)) = Inr (Fin a)"
    using ru(1) a(1) by (simp add: int_mul_float_def)
  moreover have "float_add_int (Fin a) (i * 2) = Inr (Fin s)"
    using ri(1) s(1) by (simp add: float_add_int_def)
  ultimately show ?thesis using s(2) by blast
qed

lemma priority_score_returns:
  assumes u: "\<bar>u\<bar> \<le> 2 ^ 500" and i: "\<bar>i\<bar> \<le> 2 ^ 500" and d: "\<bar>d\<bar> \<le> 2 ^ 500"
  shows "\<exists>p. priority_score u i d = Inr (Fin p)"
proof -
  obtain a s where as: "int_mul_float u (Fin (3 / 2)) = Inr (Fin a)"
      "float_add_int (Fin a) (i * 2) = Inr (Fin s)" "\<bar>s\<bar> \<le> 2 powi 502"
    using weighted_sum_bounded[OF u i] by blast
  have "\<bar>of_int d :: rat\<bar> \<le> 2 powi 500" using of_int_abs_le_pow2[OF d] by simp
  then obtain rd where rd: "float_of_int d = Inr (Fin rd)" "\<bar>rd\<bar> \<le> 2 powi 500"
    using float_of_int_bounded[of d 500] by auto
  have "\<bar>rd * (1 / 2)\<bar> \<le> 2 powi 500 * 1"
    unfolding abs_mult using rd(2) by (intro mult_mono) simp_all
  then obtain c where c: "to_double (rd * (1 / 2)) = Fin c" "\<bar>c\<bar> \<le> 2 powi 500"
    using to_double_bounded[of "rd * (1 / 2)" 500] by auto
  have "\<bar>c\<bar> \<le> 2 powi 502"
    using c(2) pow2_le_iff[of 500 502] by simp
  then have "\<bar>s + - c\<bar> \<le> 2 powi 502 + 2 powi 502"
    using as(3) by (intro order_trans[OF abs_triangle_ineq] add_mono) simp_all
  also have "\<dots> = 2 powi 503" using pow2_add[of 502 1] by simp
  finally obtain p where p: "to_double (s + - c) = Fin p" "\<bar>p\<bar> \<le> 2 powi 503"
    using to_double_bounded[of "s + - c" 503] by auto
  have "int_mul_float d (Fin (1 / 2)) = Inr (Fin c)"
    using rd(1) c(1) by (simp add: int_mul_float_def)
  then have "priority_score u i d = Inr (Fin p)"
    using as(1,2) p(1) by (simp add: priority_score_def float_sub_def)
  then show ?thesis by blast
qed

lemma priority_factor_returns:
  assumes u: "\<bar>u\<bar> \<le> 2 ^ 500" and i: "\<bar>i\<bar> \<le> 2 ^ 500"
  shows "\<exists>b. priority_factor u i = Inr (Fin b) \<and> \<bar>b\<bar> \<le> 2 powi 502"
proof -
  obtain a s where as: "int_mul_float u (Fin (3 / 2)) = Inr (Fin a)"
      "float_add_int (Fin a) (i * 2) = Inr (Fin s)" "\<bar>s\<bar> \<le> 2 powi 502"
    using weighted_sum_bounded[OF u i] by blast
  have f10: "float_of_int 10 = Inr (Fin 10)" using float_of_int_exact[of 10] by simp
  have "\<bar>s / 10\<bar> \<le> \<bar>s\<bar>" by simp
  then have "\<bar>s / 10\<bar> \<le> 2 powi 502" using as(3) by (rule order_trans)
  then obtain b where b: "to_double (s / 10) = Fin b" "\<bar>b\<bar> \<le> 2 powi 502"
    using to_double_bounded[of "s / 10" 502] by auto
  have "priority_factor u i = Inr (Fin b)"
    using as(1,2) b(1) by (simp add: priority_factor_def float_truediv_int_def f10)
  then show ?thesis using b(2) by blast
qed

lemma calculate_people_needed_total:
  assumes q: "\<bar>q\<bar> \<le> 2 ^ 500" and u: "\<bar>u\<bar> \<le> 2 ^ 500" and i: "\<bar>i\<bar> \<le> 2 ^ 500"
  shows "\<exists>n. calculate_people_needed task q u i = Inr n \<and> 1 \<le> n"
proof (cases "TASK_TIME task")
  case None
  then show ?thesis by (simp add: calculate_people_needed_def)
next
  case (Some m)
  obtain b where b: "priority_factor u i = Inr (Fin b)" "\<bar>b\<bar> \<le> 2 powi 502"
    using priority_factor_returns[OF u i] by blast
  have m: "0 \<le> m" "m \<le> 25" using TASK_TIME_range[OF Some] by auto
  have m': "(0::rat) \<le> of_int m" "(of_int m :: rat) \<le> 25" using m by simp_all
  have "\<bar>of_int (q * m) / of_int 420 :: rat\<bar> = \<bar>of_int q\<bar> * (of_int m / 420)"
    using m' by (simp add: abs_mult)
  also have "\<dots> \<le> 2 powi 500 * 1"
    using of_int_abs_le_pow2[OF q] m' by (intro mult_mono) simp_all
  finally have qb: "\<bar>of_int (q * m) / of_int 420 :: rat\<bar> \<le> 2 powi 500" by simp
  define a :: rat where "a = round_double (of_int (q * m) / of_int 420)"
  have sh: "int_truediv (q * m) 420 = Inr (Fin a)"
    unfolding a_def using int_truediv_fin[OF _ qb] by simp
  have ab: "\<bar>a\<bar> \<le> 2 powi 500"
    unfolding a_def using round_double_abs_le_pow2[OF qb] by simp
  have "\<bar>a * b\<bar> \<le> 2 powi 500 * 2 powi 502"
    unfolding abs_mult using ab b(2) by (intro mult_mono) simp_all
  also have "\<dots> = 2 powi 1002" using pow2_add[of 500 502] by simp
  finally have "to_double (a * b) = Fin (round_double (a * b))"
    by (rule to_double_fin) simp_all
  then have "calculate_people_needed task q u i = Inr (max 1 \<lceil>round_double (a * b)\<rceil>)"
    using Some sh b(1)
    by (simp add: calculate_people_needed_def WORK_MINUTES_PER_WORKER_def Let_def)
  then show ?thesis by simp
qed

section \<open>The store\<close>

text \<open>
  What a write changes, what the scan of \<open>update_task\<close> finds, and what the loop of
  \<open>reset_tasks\<close> leaves in each cell.
\<close>

lemma cells_update_cell:
  "cells (update_cell r c v s) r' c' = (if r' = r \<and> c' = c then v else cells s r' c')"
  by (simp add: update_cell_def)

lemma nrows_update_cell: "nrows (update_cell r c v s) = nrows s"
  by (simp add: update_cell_def)

lemma writes_update_cell: "writes (update_cell r c v s) = writes s @ [(r, c, v)]"
  by (simp add: update_cell_def)

lemma length_get_all_records: "length (get_all_records s) = nrows s"
  by (simp add: get_all_records_def)

lemma nth_get_all_records: "i < nrows s \<Longrightarrow> get_all_records s ! i = record_at s i"
  by (simp add: get_all_records_def)

lemma names_kept_refl: "names_kept s s"
  by (simp add: names_kept_def)

lemma names_kept_trans: "names_kept s s' \<Longrightarrow> names_kept s' s'' \<Longrightarrow> names_kept s s''"
  by (auto simp: names_kept_def)

lemma names_kept_update_cell: "c \<noteq> 1 \<Longrightarrow> names_kept s (update_cell r c v s)"
  by (simp add: names_kept_def update_cell_def)

lemma names_kept_update_row:
  "names_kept s (snd (update_row i task urgency importance days_until_due quantity s))"
proof -
  have six: "names_kept s
     (update_cell r 7 v7 (update_cell r 6 v6 (update_cell r 5 v5
       (update_cell r 4 v4 (update_cell r 3 v3 (update_cell r 2 v2 s))))))" for r v2 v3 v4 v5 v6 v7
    by (intro names_kept_trans[OF _ names_kept_update_cell] names_kept_update_cell) simp_all
  show ?thesis
    by (auto simp: update_row_def names_kept_refl six split: sum.splits)
qed

lemma names_kept_update_scan:
  "names_kept s (snd (update_scan xs task urgency importance days_until_due quantity s))"
  by (induction xs) (auto simp: names_kept_refl names_kept_update_row)

lemma names_kept_reset_row: "names_kept s (reset_row i s)"
  unfolding reset_row_def
  by (intro names_kept_trans[OF _ names_kept_update_cell] names_kept_update_cell) simp_all

lemma names_kept_fold_reset:
  "names_kept s (fold (\<lambda>(i, row). reset_row i) xs s)"
proof (induction xs arbitrary: s)
  case Nil
  show ?case by (simp add: names_kept_refl)
next
  case (Cons x xs)
  obtain i row where x: "x = (i, row)" by (cases x)
  have "names_kept s (reset_row i s)" by (rule names_kept_reset_row)
  moreover have "names_kept (reset_row i s) (fold (\<lambda>(i, row). reset_row i) xs (reset_row i s))"
    by (rule Cons.IH)
  ultimately show ?case by (simp add: x names_kept_trans)
qed

lemma names_kept_records: "names_kept s s' \<Longrightarrow> map Task (get_all_records s') = map Task (get_all_records s)"
  by (simp add: names_kept_def get_all_records_def record_at_def)

lemma update_scan_no_match:
  "\<forall>x \<in> set xs. Task (snd x) \<noteq> CStr task \<Longrightarrow>
   update_scan xs task urgency importance days_until_due quantity s = (Inr False, s)"
  by (induction xs) auto

lemma update_scan_first_match:
  "i < length rows \<Longrightarrow> Task (rows ! i) = CStr task \<Longrightarrow> \<forall>j<i. Task (rows ! j) \<noteq> CStr task \<Longrightarrow>
   update_scan (enumerate k rows) task urgency importance days_until_due quantity s =
   update_row (k + i) task urgency importance days_until_due quantity s"
proof (induction rows arbitrary: i k)
  case Nil
  then show ?case by simp
next
  case (Cons row rows)
  show ?case
  proof (cases i)
    case 0
    then show ?thesis using Cons.prems by simp
  next
    case (Suc i')
    have "Task row \<noteq> CStr task" using Cons.prems(3) Suc by auto
    moreover have "update_scan (enumerate (Suc k) rows) task urgency importance days_until_due quantity s =
       update_row (Suc k + i') task urgency importance days_until_due quantity s"
      using Cons.prems Suc by (intro Cons.IH) auto
    ultimately show ?thesis using Suc by simp
  qed
qed

lemma update_task_first_match:
  assumes "i < nrows s" and "Task (get_all_records s ! i) = CStr task"
    and "\<forall>j<i. Task (get_all_records s ! j) \<noteq> CStr task"
  shows "update_task task urgency importance days_until_due quantity s =
         update_row i task urgency importance days_until_due quantity s"
  using update_scan_first_match[of i "get_all_records s" task 0] assms
  by (simp add: update_task_def length_get_all_records)

lemma update_row_value:
  assumes "priority_score urgency importance days_until_due = Inr priority"
    and "calculate_people_needed task quantity urgency importance = Inr people_needed"
  shows "update_row i task urgency importance days_until_due quantity s =
     (Inr True,
      s\<lparr>cells := (cells s)(i + 2 := (cells s (i + 2))
                 (2 := CInt urgency, 3 := CInt importance, 4 := CInt days_until_due,
                  5 := CFloat priority, 6 := CInt quantity, 7 := CInt people_needed)),
        writes := writes s @
                 [(i + 2, 2, CInt urgency), (i + 2, 3, CInt importance),
                  (i + 2, 4, CInt days_until_due), (i + 2, 5, CFloat priority),
                  (i + 2, 6, CInt quantity), (i + 2, 7, CInt people_needed)]\<rparr>)"
  using assms by (simp add: update_row_def update_cell_def)

lemma cells_reset_row:
  "cells (reset_row i s) r c =
     (if r = i + 2 \<and> (c = 2 \<or> c = 3) then CInt 5
      else if r = i + 2 \<and> (c = 4 \<or> c = 5 \<or> c = 6) then CInt 0
      else if r = i + 2 \<and> c = 7 then CInt 1
      else cells s r c)"
  by (simp add: reset_row_def cells_update_cell)

lemma cells_fold_reset:
  "cells (fold (\<lambda>(i, row). reset_row i) (enumerate k rows) s) r c =
     (if k + 2 \<le> r \<and> r < k + 2 + length rows \<and> (c = 2 \<or> c = 3) then CInt 5
      else if k + 2 \<le> r \<and> r < k + 2 + length rows \<and> (c = 4 \<or> c = 5 \<or> c = 6) then CInt 0
      else if k + 2 \<le> r \<and> r < k + 2 + length rows \<and> c = 7 then CInt 1
      else cells s r c)"
proof (induction rows arbitrary: k s)
  case Nil
  show ?case by auto
next
  case (Cons row rows)
  have "cells (fold (\<lambda>(i, row). reset_row i) (enumerate k (row # rows)) s) r c =
        cells (fold (\<lambda>(i, row). reset_row i) (enumerate (Suc k) rows) (reset_row k s)) r c"
    by simp
  also have "\<dots> =
     (if Suc k + 2 \<le> r \<and> r < Suc k + 2 + length rows \<and> (c = 2 \<or> c = 3) then CInt 5
      else if Suc k + 2 \<le> r \<and> r < Suc k + 2 + length rows \<and> (c = 4 \<or> c = 5 \<or> c = 6) then CInt 0
      else if Suc k + 2 \<le> r \<and> r < Suc k + 2 + length rows \<and> c = 7 then CInt 1
      else cells (reset_row k s) r c)"
    by (rule Cons.IH)
  finally show ?case
    by (cases "r = k + 2") (auto simp: cells_reset_row)
qed

lemma nrows_reset_tasks: "nrows (reset_tasks s) = nrows s"
  using names_kept_fold_reset[of s "enumerate 0 (get_all_records s)"]
  by (simp add: reset_tasks_def names_kept_def)

lemma record_at_reset_tasks:
  assumes "i < nrows s"
  shows "record_at (reset_tasks s) i =
     \<lparr>Task = Task (record_at s i), Urgency = CInt 5, Importance = CInt 5, Days_Until_Due = CInt 0,
      Priority = CInt 0, Quantity = CInt 0, People_Needed = CInt 1\<rparr>"
  using assms
  by (simp add: record_at_def reset_tasks_def cells_fold_reset length_get_all_records)

section \<open>The sample worksheet\<close>

text \<open>The records of the sample worksheet and the effect of the operations on it.\<close>

lemma records_example:
  "get_all_records example_sheet =
     [\<lparr>Task = CStr ''Putaway 3002'', Urgency = CInt 3, Importance = CInt 4, Days_Until_Due = CInt 2,
       Priority = CFloat (Fin (23 / 2)), Quantity = CInt 40, People_Needed = CInt 3\<rparr>,
      \<lparr>Task = CStr ''Unload Shuttles'', Urgency = CStr ''high'', Importance = CInt 9,
       Days_Until_Due = CStr ''soon'', Priority = CStr [], Quantity = CStr ''n/a'',
       People_Needed = CStr []\<rparr>]"
  by (simp add: get_all_records_def example_sheet_def sheet_of_def record_at_def upt_rec)

lemma nrows_example: "nrows example_sheet = 2"
  by (simp add: example_sheet_def sheet_of_def)

lemma writes_example: "writes example_sheet = []"
  by (simp add: example_sheet_def sheet_of_def)

lemma people_example: "calculate_people_needed ''Unload Shuttles'' 10 8 9 = Inr 2"
proof -
  have v: "max 1 \<lceil>round_double (round_double (of_int (10 * 20) / 420) *
                                       round_double ((of_int 8 * (3 / 2) + of_int 9 * 2) / 10))\<rceil> = (2::int)"
    by code_simp
  have "calculate_people_needed ''Unload Shuttles'' 10 8 9 =
           Inr (max 1 \<lceil>round_double (round_double (of_int (10 * 20) / 420) *
                                       round_double ((of_int 8 * (3 / 2) + of_int 9 * 2) / 10))\<rceil>)"
    by (rule calculate_people_needed_value) (simp_all add: TASK_TIME_def)
  then show ?thesis by (simp only: v)
qed

lemma priority_example: "priority_score 8 9 1 = Inr (Fin (59 / 2))"
  using priority_score_exact[of 8 9 1] by (simp add: spec_priority_def)

lemma update_example:
  "update_task ''Unload Shuttles'' 8 9 1 10 example_sheet =
     update_row 1 ''Unload Shuttles'' 8 9 1 10 example_sheet"
  by (rule update_task_first_match) (simp_all add: nrows_example records_example)

lemma writes_update_example:
  "writes (snd (update_task ''Unload Shuttles'' 8 9 1 10 example_sheet)) =
     [(3, 2, CInt 8), (3, 3, CInt 9), (3, 4, CInt 1), (3, 5, CFloat (Fin (59 / 2))),
      (3, 6, CInt 10), (3, 7, CInt 2)]"
  by (simp add: update_example update_row_value[OF priority_example people_example] writes_example)

lemma writes_reset_example:
  "writes (reset_tasks example_sheet) =
     [(2, 2, CInt 5), (2, 3, CInt 5), (2, 4, CInt 0), (2, 5, CInt 0), (2, 6, CInt 0), (2, 7, CInt 1),
      (3, 2, CInt 5), (3, 3, CInt 5), (3, 4, CInt 0), (3, 5, CInt 0), (3, 6, CInt 0), (3, 7, CInt 1)]"
  by (simp add: reset_tasks_def records_example reset_row_def writes_update_cell writes_example)

section \<open>Loading\<close>

text \<open>
  A worksheet is moderate when every integer in it is at most \<open>2 ^ 53\<close> in magnitude.
  Every conversion of \<open>load_tasks\<close> is then exact and none raises: the type inferred
  for a column depends only on whether it holds a text or a float, a converted cell holds
  the number it held, and a coerced column holds the number each cell stands for, with the
  default in place of NaN. Beyond that size an integer beside a text is rounded, or the
  conversion raises and \<open>load_tasks\<close> returns the empty frame.
\<close>

lemma moderate_float_of_int:
  assumes "moderate_cell (CInt n)"
  shows "float_of_int n = Inr (Fin (of_int n))"
  using assms by (simp add: moderate_cell_def float_of_int_exact)

lemma moderate_round_double:
  assumes "moderate_cell (CInt n)"
  shows "round_double (of_int n) = of_int n"
proof -
  have n: "\<bar>n\<bar> \<le> 2 ^ 53" using assms by (simp add: moderate_cell_def)
  show ?thesis using round_double_exact_le[OF n, of 0] by simp
qed

lemma scan_objects_moderate:
  assumes "\<forall>c \<in> set cs. moderate_cell c"
  shows "scan_objects fl si False cs =
     Inr (if \<exists>t. CStr t \<in> set cs then None else Some (fl \<or> (\<exists>x. CFloat x \<in> set cs)))"
  using assms
proof (induction cs arbitrary: fl si)
  case Nil
  show ?case by simp
next
  case (Cons c cs)
  have rest: "\<forall>c \<in> set cs. moderate_cell c" using Cons.prems by simp
  show ?case
  proof (cases c)
    case (CInt n)
    have m: "moderate_cell (CInt n)" using Cons.prems CInt by simp
    then have n: "\<bar>n\<bar> \<le> 2 ^ 53" by (simp add: moderate_cell_def)
    have r: "\<not> INT64_MAX < n" "\<not> UINT64_MAX < n" "\<not> n < INT64_MIN"
      using n by (simp_all add: INT64_MAX_def UINT64_MAX_def INT64_MIN_def)
    show ?thesis
      using Cons.IH[OF rest] by (simp add: CInt moderate_float_of_int[OF m] r Let_def)
  next
    case (CFloat x)
    show ?thesis using Cons.IH[OF rest, of True si] by (auto simp: CFloat)
  next
    case (CStr t)
    show ?thesis by (auto simp: CStr)
  qed
qed

lemma infer_column_moderate:
  assumes "\<forall>c \<in> set cs. moderate_cell c"
  shows "infer_column cs =
     Inr \<lparr>is_object = (\<exists>t. CStr t \<in> set cs),
          items = (if (\<exists>t. CStr t \<in> set cs) then cs
                   else if (\<exists>x. CFloat x \<in> set cs) then map as_float64 cs else cs)\<rparr>"
  by (simp add: infer_column_def scan_objects_moderate[OF assms])

lemma infer_column_returns:
  assumes "\<forall>c \<in> set cs. moderate_cell c"
  shows "\<exists>col. infer_column cs = Inr col"
  by (simp add: infer_column_moderate[OF assms])

lemma cell_value_as_float64:
  assumes "moderate_cell c"
  shows "cell_value (as_float64 c) = cell_value c"
  using assms by (cases c) (simp_all add: as_float64_def cell_value_def moderate_round_double)

lemma coerce_cells_moderate:
  assumes "\<forall>c \<in> set cs. moderate_cell c"
  shows "coerce_cells parse cs = Inr (map (\<lambda>c. CFloat (number_of parse c)) cs)"
  using assms
proof (induction cs)
  case Nil
  show ?case by simp
next
  case (Cons c cs)
  have rest: "coerce_cells parse cs = Inr (map (\<lambda>c. CFloat (number_of parse c)) cs)"
    using Cons by simp
  have m: "moderate_cell c" using Cons.prems by simp
  show ?case
    using m by (cases c) (simp_all add: rest and_then_def number_of_def moderate_float_of_int)
qed

lemma infer_column_length:
  assumes "\<forall>c \<in> set cs. moderate_cell c" and "infer_column cs = Inr col"
  shows "length (items col) = length cs"
  using assms(2) by (auto simp: infer_column_moderate[OF assms(1)])

lemma infer_column_value:
  assumes "\<forall>c \<in> set cs. moderate_cell c" and "infer_column cs = Inr col" and "k < length cs"
  shows "cell_value (items col ! k) = cell_value (cs ! k)"
proof -
  have "moderate_cell (cs ! k)" using assms(1,3) by simp
  then show ?thesis
    using assms(2,3) by (auto simp: infer_column_moderate[OF assms(1)] cell_value_as_float64)
qed

lemma coerced_value:
  assumes m: "\<forall>c \<in> set cs. moderate_cell c" and col: "infer_column cs = Inr col"
    and k: "k < length cs"
  shows "\<exists>vs. to_numeric parse col = Inr vs \<and> length vs = length cs \<and>
     cell_value (fillna d vs ! k) =
       Inl (if number_of parse (cs ! k) = NaN then Fin d else number_of parse (cs ! k))"
proof (cases "\<exists>t. CStr t \<in> set cs")
  case True
  then have c: "col = \<lparr>is_object = True, items = cs\<rparr>"
    using col by (simp add: infer_column_moderate[OF m])
  have "to_numeric parse col = Inr (map (\<lambda>c. CFloat (number_of parse c)) cs)"
    by (simp add: c to_numeric_def coerce_cells_moderate[OF m])
  then show ?thesis using k by (simp add: fillna_def cell_value_def)
next
  case False
  then have c: "col = \<lparr>is_object = False,
      items = (if (\<exists>x. CFloat x \<in> set cs) then map as_float64 cs else cs)\<rparr>"
    using col by (simp add: infer_column_moderate[OF m])
  have tn: "to_numeric parse col = Inr (items col)" by (simp add: c to_numeric_def)
  have len: "length (items col) = length cs" by (simp add: c)
  have mk: "moderate_cell (cs ! k)" using m k by simp
  have ink: "cs ! k \<in> set cs" using k by simp
  show ?thesis
  proof (cases "cs ! k")
    case (CInt n)
    have mn: "moderate_cell (CInt n)" using mk CInt by simp
    have "items col ! k = CInt n \<or> items col ! k = CFloat (Fin (of_int n))"
      using k CInt by (simp add: c as_float64_def moderate_round_double[OF mn])
    then show ?thesis
      using k CInt tn len by (auto simp: fillna_def cell_value_def number_of_def)
  next
    case (CFloat x)
    have fl: "\<exists>x. CFloat x \<in> set cs" using ink CFloat by auto
    have "items col ! k = CFloat x" using k CFloat fl by (simp add: c as_float64_def)
    then show ?thesis
      using k CFloat tn len by (auto simp: fillna_def cell_value_def number_of_def)
  next
    case (CStr t)
    then show ?thesis using False ink by auto
  qed
qed

lemma load_body_moderate:
  assumes m: "\<forall>row \<in> set data. moderate_row row" and k: "k < length data"
  shows "\<exists>rows. load_body parse data = Inr rows \<and> length rows = length data \<and>
     cell_value (L_Task (rows ! k)) = cell_value (Task (data ! k)) \<and>
     cell_value (L_Urgency (rows ! k)) = cell_value (Urgency (data ! k)) \<and>
     cell_value (L_Importance (rows ! k)) = cell_value (Importance (data ! k)) \<and>
     cell_value (L_Days_Until_Due (rows ! k)) =
       Inl (if number_of parse (Days_Until_Due (data ! k)) = NaN then Fin 0
            else number_of parse (Days_Until_Due (data ! k))) \<and>
     cell_value (L_Priority (rows ! k)) =
       Inl (if number_of parse (Priority (data ! k)) = NaN then Fin 0
            else number_of parse (Priority (data ! k))) \<and>
     cell_value (L_Quantity (rows ! k)) =
       Inl (if number_of parse (Quantity (data ! k)) = NaN then Fin 0
            else number_of parse (Quantity (data ! k))) \<and>
     cell_value (L_People_Needed (rows ! k)) =
       Inl (if number_of parse (People_Needed (data ! k)) = NaN then Fin 1
            else number_of parse (People_Needed (data ! k)))"
proof -
  have mt: "\<forall>c \<in> set (map Task data). moderate_cell c"
    and mu: "\<forall>c \<in> set (map Urgency data). moderate_cell c"
    and mi: "\<forall>c \<in> set (map Importance data). moderate_cell c"
    and md: "\<forall>c \<in> set (map Days_Until_Due data). moderate_cell c"
    and mp: "\<forall>c \<in> set (map Priority data). moderate_cell c"
    and mq: "\<forall>c \<in> set (map Quantity data). moderate_cell c"
    and mn: "\<forall>c \<in> set (map People_Needed data). moderate_cell c"
    using m by (simp_all add: moderate_row_def)
  obtain t where t: "infer_column (map Task data) = Inr t"
    using infer_column_returns[OF mt] by blast
  obtain u where u: "infer_column (map Urgency data) = Inr u"
    using infer_column_returns[OF mu] by blast
  obtain i where i: "infer_column (map Importance data) = Inr i"
    using infer_column_returns[OF mi] by blast
  obtain d where d: "infer_column (map Days_Until_Due data) = Inr d"
    using infer_column_returns[OF md] by blast
  obtain p where p: "infer_column (map Priority data) = Inr p"
    using infer_column_returns[OF mp] by blast
  obtain q where q: "infer_column (map Quantity data) = Inr q"
    using infer_column_returns[OF mq] by blast
  obtain n where n: "infer_column (map People_Needed data) = Inr n"
    using infer_column_returns[OF mn] by blast
  have df: "DataFrame data =
      Inr \<lparr>F_Task = t, F_Urgency = u, F_Importance = i, F_Days_Until_Due = d,
           F_Priority = p, F_Quantity = q, F_People_Needed = n\<rparr>"
    by (simp add: DataFrame_def and_then_def t u i d p q n)
  have k': "k < length (map Task data)" "k < length (map Urgency data)"
    "k < length (map Importance data)" "k < length (map Days_Until_Due data)"
    "k < length (map Priority data)" "k < length (map Quantity data)"
    "k < length (map People_Needed data)"
    using k by simp_all
  obtain dv where dv: "to_numeric parse d = Inr dv" "length dv = length data"
    "cell_value (fillna 0 dv ! k) =
       Inl (if number_of parse (Days_Until_Due (data ! k)) = NaN then Fin 0
            else number_of parse (Days_Until_Due (data ! k)))"
    using coerced_value[OF md d k'(4), of parse 0] k by auto
  obtain pv where pv: "to_numeric parse p = Inr pv" "length pv = length data"
    "cell_value (fillna 0 pv ! k) =
       Inl (if number_of parse (Priority (data ! k)) = NaN then Fin 0
            else number_of parse (Priority (data ! k)))"
    using coerced_value[OF mp p k'(5), of parse 0] k by auto
  obtain qv where qv: "to_numeric parse q = Inr qv" "length qv = length data"
    "cell_value (fillna 0 qv ! k) =
       Inl (if number_of parse (Quantity (data ! k)) = NaN then Fin 0
            else number_of parse (Quantity (data ! k)))"
    using coerced_value[OF mq q k'(6), of parse 0] k by auto
  obtain nv where nv: "to_numeric parse n = Inr nv" "length nv = length data"
    "cell_value (fillna 1 nv ! k) =
       Inl (if number_of parse (People_Needed (data ! k)) = NaN then Fin 1
            else number_of parse (People_Needed (data ! k)))"
    using coerced_value[OF mn n k'(7), of parse 1] k by auto
  have body: "load_body parse data =
      Inr (frame_rows (items t) (items u) (items i) (fillna 0 dv) (fillna 0 pv) (fillna 0 qv)
             (fillna 1 nv))"
    by (simp add: load_body_def and_then_def df dv(1) pv(1) qv(1) nv(1))
  have lt: "length (items t) = length data"
    using infer_column_length[OF mt t] by simp
  have vt: "cell_value (items t ! k) = cell_value (Task (data ! k))"
    using infer_column_value[OF mt t k'(1)] k by simp
  have vu: "cell_value (items u ! k) = cell_value (Urgency (data ! k))"
    using infer_column_value[OF mu u k'(2)] k by simp
  have vi: "cell_value (items i ! k) = cell_value (Importance (data ! k))"
    using infer_column_value[OF mi i k'(3)] k by simp
  show ?thesis
    using k by (simp add: body frame_rows_def lt vt vu vi dv(3) pv(3) qv(3) nv(3))
qed

lemma load_example:
  "load_tasks (\<lambda>t. None) example_sheet =
     [\<lparr>L_Task = CStr ''Putaway 3002'', L_Urgency = CInt 3, L_Importance = CInt 4,
       L_Days_Until_Due = CFloat (Fin 2), L_Priority = CFloat (Fin (23 / 2)),
       L_Quantity = CFloat (Fin 40), L_People_Needed = CFloat (Fin 3)\<rparr>,
      \<lparr>L_Task = CStr ''Unload Shuttles'', L_Urgency = CStr ''high'', L_Importance = CInt 9,
       L_Days_Until_Due = CFloat (Fin 0), L_Priority = CFloat (Fin 0),
       L_Quantity = CFloat (Fin 0), L_People_Needed = CFloat (Fin 1)\<rparr>]"
proof -
  have f: "float_of_int 2 = Inr (Fin 2)" "float_of_int 3 = Inr (Fin 3)"
    "float_of_int 4 = Inr (Fin 4)" "float_of_int 9 = Inr (Fin 9)" "float_of_int 40 = Inr (Fin 40)"
    using float_of_int_exact[of 2] float_of_int_exact[of 3] float_of_int_exact[of 4]
      float_of_int_exact[of 9] float_of_int_exact[of 40] by simp_all
  have r: "\<not> INT64_MAX < 2" "\<not> INT64_MAX < 3" "\<not> INT64_MAX < 4" "\<not> INT64_MAX < 9" "\<not> INT64_MAX < 40"
    "\<not> UINT64_MAX < 2" "\<not> UINT64_MAX < 3" "\<not> UINT64_MAX < 4" "\<not> UINT64_MAX < 9" "\<not> UINT64_MAX < 40"
    "\<not> 2 < INT64_MIN" "\<not> 3 < INT64_MIN" "\<not> 4 < INT64_MIN" "\<not> 9 < INT64_MIN" "\<not> 40 < INT64_MIN"
    by (simp_all add: INT64_MAX_def UINT64_MAX_def INT64_MIN_def)
  have df: "DataFrame (get_all_records example_sheet) =
      Inr \<lparr>F_Task = \<lparr>is_object = True, items = [CStr ''Putaway 3002'', CStr ''Unload Shuttles'']\<rparr>,
           F_Urgency = \<lparr>is_object = True, items = [CInt 3, CStr ''high'']\<rparr>,
           F_Importance = \<lparr>is_object = False, items = [CInt 4, CInt 9]\<rparr>,
           F_Days_Until_Due = \<lparr>is_object = True, items = [CInt 2, CStr ''soon'']\<rparr>,
           F_Priority = \<lparr>is_object = True, items = [CFloat (Fin (23 / 2)), CStr []]\<rparr>,
           F_Quantity = \<lparr>is_object = True, items = [CInt 40, CStr ''n/a'']\<rparr>,
           F_People_Needed = \<lparr>is_object = True, items = [CInt 3, CStr []]\<rparr>\<rparr>"
    by (simp add: records_example DataFrame_def and_then_def infer_column_def f r Let_def)
  have body: "load_body (\<lambda>t. None) (get_all_records example_sheet) =
     Inr [\<lparr>L_Task = CStr ''Putaway 3002'', L_Urgency = CInt 3, L_Importance = CInt 4,
       L_Days_Until_Due = CFloat (Fin 2), L_Priority = CFloat (Fin (23 / 2)),
       L_Quantity = CFloat (Fin 40), L_People_Needed = CFloat (Fin 3)\<rparr>,
      \<lparr>L_Task = CStr ''Unload Shuttles'', L_Urgency = CStr ''high'', L_Importance = CInt 9,
       L_Days_Until_Due = CFloat (Fin 0), L_Priority = CFloat (Fin 0),
       L_Quantity = CFloat (Fin 0), L_People_Needed = CFloat (Fin 1)\<rparr>]"
    by (simp add: load_body_def df and_then_def to_numeric_def f fillna_def frame_rows_def
        upt_rec[of 0] upt_rec[of 1])
  have ne: "get_all_records example_sheet \<noteq> []" by (simp add: records_example)
  show ?thesis using ne by (simp add: load_tasks_def Let_def body)
qed

lemma float_of_int_overflow:
  assumes "2 powi 1024 \<le> \<bar>of_int n :: rat\<bar>"
  shows "float_of_int n = Inl OverflowError"
proof -
  have "float_of_int n = int_truediv n 1" by (simp add: float_of_int_def int_truediv_def)
  moreover have "int_truediv n 1 = Inl OverflowError"
    using assms by (intro int_truediv_overflow) simp_all
  ultimately show ?thesis by simp
qed

lemma load_tasks_rounds_example:
  "number_of (\<lambda>t. None) (Quantity (get_all_records rounding_sheet ! 0)) = Fin (2 ^ 53 + 1) \<and>
   L_Quantity (load_tasks (\<lambda>t. None) rounding_sheet ! 0) = CFloat (Fin (2 ^ 53))"
proof -
  have recs: "get_all_records rounding_sheet =
     [\<lparr>Task = CStr ''Putaway 3002'', Urgency = CInt 5, Importance = CInt 5, Days_Until_Due = CInt 0,
       Priority = CInt 0, Quantity = CInt (2 ^ 53 + 1), People_Needed = CInt 1\<rparr>,
      \<lparr>Task = CStr ''Unload Shuttles'', Urgency = CInt 5, Importance = CInt 5,
       Days_Until_Due = CInt 0, Priority = CInt 0, Quantity = CStr ''n/a'',
       People_Needed = CInt 1\<rparr>]"
    by (simp add: get_all_records_def rounding_sheet_def sheet_of_def record_at_def upt_rec)
  have r1: "round_double 9007199254740993 = 9007199254740992" by code_simp
  have big: "float_of_int (2 ^ 53 + 1) = Inr (Fin (2 ^ 53))"
    by (simp add: float_of_int_def r1)
  have f: "float_of_int 0 = Inr (Fin 0)" "float_of_int 1 = Inr (Fin 1)" "float_of_int 5 = Inr (Fin 5)"
    using float_of_int_exact[of 0] float_of_int_exact[of 1] float_of_int_exact[of 5] by simp_all
  have r: "\<not> INT64_MAX < 0" "\<not> INT64_MAX < 1" "\<not> INT64_MAX < 5" "\<not> INT64_MAX < 2 ^ 53 + 1"
    "\<not> UINT64_MAX < 0" "\<not> UINT64_MAX < 1" "\<not> UINT64_MAX < 5" "\<not> UINT64_MAX < 2 ^ 53 + 1"
    "\<not> 0 < INT64_MIN" "\<not> 1 < INT64_MIN" "\<not> 5 < INT64_MIN" "\<not> 2 ^ 53 + 1 < INT64_MIN"
    by (simp_all add: INT64_MAX_def UINT64_MAX_def INT64_MIN_def)
  have df: "DataFrame (get_all_records rounding_sheet) =
      Inr \<lparr>F_Task = \<lparr>is_object = True, items = [CStr ''Putaway 3002'', CStr ''Unload Shuttles'']\<rparr>,
           F_Urgency = \<lparr>is_object = False, items = [CInt 5, CInt 5]\<rparr>,
           F_Importance = \<lparr>is_object = False, items = [CInt 5, CInt 5]\<rparr>,
           F_Days_Until_Due = \<lparr>is_object = False, items = [CInt 0, CInt 0]\<rparr>,
           F_Priority = \<lparr>is_object = False, items = [CInt 0, CInt 0]\<rparr>,
           F_Quantity = \<lparr>is_object = True, items = [CInt (2 ^ 53 + 1), CStr ''n/a'']\<rparr>,
           F_People_Needed = \<lparr>is_object = False, items = [CInt 1, CInt 1]\<rparr>\<rparr>"
    unfolding recs using big r by (simp add: DataFrame_def and_then_def infer_column_def f Let_def)
  have body: "load_body (\<lambda>t. None) (get_all_records rounding_sheet) =
     Inr [\<lparr>L_Task = CStr ''Putaway 3002'', L_Urgency = CInt 5, L_Importance = CInt 5,
       L_Days_Until_Due = CInt 0, L_Priority = CInt 0,
       L_Quantity = CFloat (Fin (2 ^ 53)), L_People_Needed = CInt 1\<rparr>,
      \<lparr>L_Task = CStr ''Unload Shuttles'', L_Urgency = CInt 5, L_Importance = CInt 5,
       L_Days_Until_Due = CInt 0, L_Priority = CInt 0,
       L_Quantity = CFloat (Fin 0), L_People_Needed = CInt 1\<rparr>]"
    using big by (simp add: load_body_def df and_then_def to_numeric_def fillna_def frame_rows_def
        upt_rec[of 0] upt_rec[of 1])
  have ne: "get_all_records rounding_sheet \<noteq> []" by (simp add: recs)
  have "load_tasks (\<lambda>t. None) rounding_sheet ! 0 =
      \<lparr>L_Task = CStr ''Putaway 3002'', L_Urgency = CInt 5, L_Importance = CInt 5,
       L_Days_Until_Due = CInt 0, L_Priority = CInt 0,
       L_Quantity = CFloat (Fin (2 ^ 53)), L_People_Needed = CInt 1\<rparr>"
    using ne by (simp add: load_tasks_def Let_def body)
  then show ?thesis by (simp add: recs number_of_def)
qed

lemma load_tasks_overflow_example:
  "nrows overflow_sheet = 2 \<and> load_tasks parse overflow_sheet = []"
proof -
  have recs: "get_all_records overflow_sheet =
     [\<lparr>Task = CStr ''Putaway 3002'', Urgency = CInt 5, Importance = CInt 5, Days_Until_Due = CInt 0,
       Priority = CInt 0, Quantity = CStr ''n/a'', People_Needed = CInt 1\<rparr>,
      \<lparr>Task = CStr ''Unload Shuttles'', Urgency = CInt 5, Importance = CInt 5,
       Days_Until_Due = CInt 0, Priority = CInt 0, Quantity = CInt (2 ^ 1024),
       People_Needed = CInt 1\<rparr>]"
    by (simp add: get_all_records_def overflow_sheet_def sheet_of_def record_at_def upt_rec)
  have big: "float_of_int (2 ^ 1024) = Inl OverflowError"
    by (rule float_of_int_overflow) simp
  have f: "float_of_int 0 = Inr (Fin 0)" "float_of_int 1 = Inr (Fin 1)" "float_of_int 5 = Inr (Fin 5)"
    using float_of_int_exact[of 0] float_of_int_exact[of 1] float_of_int_exact[of 5] by simp_all
  have r: "\<not> INT64_MAX < 0" "\<not> INT64_MAX < 1" "\<not> INT64_MAX < 5"
    "\<not> UINT64_MAX < 0" "\<not> UINT64_MAX < 1" "\<not> UINT64_MAX < 5"
    "\<not> 0 < INT64_MIN" "\<not> 1 < INT64_MIN" "\<not> 5 < INT64_MIN"
    by (simp_all add: INT64_MAX_def UINT64_MAX_def INT64_MIN_def)
  have df: "DataFrame (get_all_records overflow_sheet) =
      Inr \<lparr>F_Task = \<lparr>is_object = True, items = [CStr ''Putaway 3002'', CStr ''Unload Shuttles'']\<rparr>,
           F_Urgency = \<lparr>is_object = False, items = [CInt 5, CInt 5]\<rparr>,
           F_Importance = \<lparr>is_object = False, items = [CInt 5, CInt 5]\<rparr>,
           F_Days_Until_Due = \<lparr>is_object = False, items = [CInt 0, CInt 0]\<rparr>,
           F_Priority = \<lparr>is_object = False, items = [CInt 0, CInt 0]\<rparr>,
           F_Quantity = \<lparr>is_object = True, items = [CStr ''n/a'', CInt (2 ^ 1024)]\<rparr>,
           F_People_Needed = \<lparr>is_object = False, items = [CInt 1, CInt 1]\<rparr>\<rparr>"
    unfolding recs by (simp add: DataFrame_def and_then_def infer_column_def f r Let_def)
  have body: "load_body parse (get_all_records overflow_sheet) = Inl OverflowError"
    using big by (simp add: load_body_def df and_then_def to_numeric_def)
  have ne: "get_all_records overflow_sheet \<noteq> []" by (simp add: recs)
  have "load_tasks parse overflow_sheet = []"
    using ne by (simp add: load_tasks_def Let_def body)
  then show ?thesis by (simp add: overflow_sheet_def sheet_of_def)
qed

section \<open>Staffing\<close>

text \<open>
  C1. For a task of the catalogue, with \<open>m\<close> minutes per unit, and integer inputs with
  a quantity up to \<open>2 ^ 53\<close> and an urgency and an importance up to 10 in magnitude,
  \<open>calculate_people_needed\<close> returns \<open>max(1, ceil(v))\<close> where \<open>v\<close> is the formula
  \<open>(quantity * m / 420) * ((urgency * 1.5 + importance * 2) / 10)\<close> evaluated in double
  precision: the two quotients and their product are each rounded to the nearest double.
  The result is within 1 of what the formula gives in exact arithmetic, and it need not
  be equal to it: the exact formula gives 7 for "Putaway 3043" with quantity 80,
  urgency 3 and importance 10, and the program returns 8. For "Putaway 3002" with
  quantity 10, urgency 8 and importance 9 the result is 2.
\<close>

theorem people_needed_rounded:
  assumes "TASK_TIME task = Some m" and "\<bar>quantity\<bar> \<le> 2 ^ 53"
    and "\<bar>urgency\<bar> \<le> 10" and "\<bar>importance\<bar> \<le> 10"
  shows "(let v = round_double (round_double (of_int (quantity * m) / 420) *
                              round_double ((of_int urgency * (3 / 2) + of_int importance * 2) / 10))
          in calculate_people_needed task quantity urgency importance = Inr (max 1 \<lceil>v\<rceil>) \<and>
             \<bar>max 1 \<lceil>v\<rceil> - spec_people_needed m quantity urgency importance\<bar> \<le> 1) \<and>
         calculate_people_needed ''Putaway 3002'' 10 8 9 = Inr 2"
proof -
  have q: "\<bar>quantity\<bar> \<le> 2 ^ 900" using assms(2) by simp
  have u: "\<bar>urgency\<bar> \<le> 2 ^ 50" using assms(3) by simp
  have i: "\<bar>importance\<bar> \<le> 2 ^ 50" using assms(4) by simp
  have a: "calculate_people_needed task quantity urgency importance =
           Inr (max 1 \<lceil>round_double (round_double (of_int (quantity * m) / 420) *
                 round_double ((of_int urgency * (3 / 2) + of_int importance * 2) / 10))\<rceil>)"
    using assms(1) q u i by (rule calculate_people_needed_value)
  have b: "\<bar>max 1 \<lceil>round_double (round_double (of_int (quantity * m) / 420) *
                 round_double ((of_int urgency * (3 / 2) + of_int importance * 2) / 10))\<rceil>
           - spec_people_needed m quantity urgency importance\<bar> \<le> 1"
    using TASK_TIME_range[OF assms(1)] assms(2-4) by (rule people_needed_formula_close)
  have v: "max 1 \<lceil>round_double (round_double (of_int (10 * 20) / 420) *
                                       round_double ((of_int 8 * (3 / 2) + of_int 9 * 2) / 10))\<rceil> = (2::int)"
    by code_simp
  have "calculate_people_needed ''Putaway 3002'' 10 8 9 =
           Inr (max 1 \<lceil>round_double (round_double (of_int (10 * 20) / 420) *
                                       round_double ((of_int 8 * (3 / 2) + of_int 9 * 2) / 10))\<rceil>)"
    by (rule calculate_people_needed_value) (simp_all add: TASK_TIME_def)
  then have c: "calculate_people_needed ''Putaway 3002'' 10 8 9 = Inr 2"
    by (simp only: v)
  show ?thesis using a b c by (simp only: Let_def)
qed

theorem people_needed_rounded_witness:
  "TASK_TIME ''Putaway 3043'' = Some 15 \<and> \<bar>80::int\<bar> \<le> 2 ^ 53 \<and> \<bar>3::int\<bar> \<le> 10 \<and> \<bar>10::int\<bar> \<le> 10
   \<and> calculate_people_needed ''Putaway 3043'' 80 3 10 = Inr 8
   \<and> spec_people_needed 15 80 3 10 = 7
   \<and> calculate_people_needed ''Putaway 3002'' 10 8 9 = Inr 2"
proof -
  have t: "TASK_TIME ''Putaway 3043'' = Some 15" by (simp add: TASK_TIME_def)
  have q: "\<bar>80::int\<bar> \<le> 2 ^ 53" by simp
  have u: "\<bar>3::int\<bar> \<le> 10" by simp
  have i: "\<bar>10::int\<bar> \<le> 10" by simp
  have v: "max 1 \<lceil>round_double (round_double (of_int (80 * 15) / 420) *
                                       round_double ((of_int 3 * (3 / 2) + of_int 10 * 2) / 10))\<rceil> = (8::int)"
    by code_simp
  have s: "spec_people_needed 15 80 3 10 = 7" by (simp add: spec_people_needed_def)
  show ?thesis
    using people_needed_rounded[OF t q u i] t q u i s by (simp only: Let_def v)
qed

theorem people_needed_exact_counterexample:
  "calculate_people_needed ''Putaway 3043'' 80 3 10 \<noteq> Inr (spec_people_needed 15 80 3 10)"
proof -
  have v: "max 1 \<lceil>round_double (round_double (of_int (80 * 15) / 420) *
                                       round_double ((of_int 3 * (3 / 2) + of_int 10 * 2) / 10))\<rceil> = (8::int)"
    by code_simp
  have "calculate_people_needed ''Putaway 3043'' 80 3 10 =
           Inr (max 1 \<lceil>round_double (round_double (of_int (80 * 15) / 420) *
                                       round_double ((of_int 3 * (3 / 2) + of_int 10 * 2) / 10))\<rceil>)"
    by (rule calculate_people_needed_value) (simp_all add: TASK_TIME_def)
  then have "calculate_people_needed ''Putaway 3043'' 80 3 10 = Inr 8" by (simp only: v)
  moreover have "spec_people_needed 15 80 3 10 = 7" by (simp add: spec_people_needed_def)
  ultimately show ?thesis by simp
qed

text \<open>
  C3. For every task name, in the catalogue or not, every quantity from 0 to \<open>2 ^ 500\<close>
  and all urgency and importance values up to \<open>2 ^ 500\<close> in magnitude,
  \<open>calculate_people_needed\<close> returns an integer that is at least 1. Without a bound on
  the quantity the division by 420 overflows the doubles and raises \<open>OverflowError\<close>.
\<close>

theorem people_needed_at_least_one:
  assumes "0 \<le> quantity" and "quantity \<le> 2 ^ 500"
    and "\<bar>urgency\<bar> \<le> 2 ^ 500" and "\<bar>importance\<bar> \<le> 2 ^ 500"
  shows "\<exists>n. calculate_people_needed task quantity urgency importance = Inr n \<and> 1 \<le> n"
proof -
  have "\<bar>quantity\<bar> \<le> 2 ^ 500" using assms(1,2) by simp
  then show ?thesis using assms(3,4) by (rule calculate_people_needed_total)
qed

theorem people_needed_at_least_one_witness:
  "(0::int) \<le> 7 \<and> (7::int) \<le> 2 ^ 500 \<and> \<bar>10::int\<bar> \<le> 2 ^ 500
   \<and> (\<exists>n. calculate_people_needed ''Putaway 3002'' 7 10 10 = Inr n \<and> 1 \<le> n)"
proof -
  have a: "(0::int) \<le> 7" by simp
  have b: "(7::int) \<le> 2 ^ 500" by simp
  have c: "\<bar>10::int\<bar> \<le> 2 ^ 500" by simp
  show ?thesis using people_needed_at_least_one[OF a b c c, of "''Putaway 3002''"] a b c by blast
qed

theorem people_needed_overflow_counterexample:
  "calculate_people_needed ''Putaway 3002'' (2 ^ 1040) 5 5 = Inl OverflowError"
proof -
  have t: "TASK_TIME ''Putaway 3002'' = Some 20" by (simp add: TASK_TIME_def)
  obtain b where pf: "priority_factor 5 5 = Inr (Fin b)"
    using priority_factor_value(1)[of 5 5] by simp
  have "int_truediv (2 ^ 1040 * 20) 420 = Inl OverflowError"
    by (rule int_truediv_overflow) simp_all
  then show ?thesis
    using t pf by (simp add: calculate_people_needed_def WORK_MINUTES_PER_WORKER_def)
qed

text \<open>
  C4. For a task name that is not in the catalogue, \<open>calculate_people_needed\<close> returns 1
  whatever the quantity, urgency and importance are; it raises nothing and computes
  nothing, so not even an input that would overflow the workload computation matters.
\<close>

theorem people_needed_unknown_task:
  "task \<notin> dom TASK_TIME \<Longrightarrow> calculate_people_needed task quantity urgency importance = Inr 1"
  by (simp add: calculate_people_needed_def domIff)

theorem people_needed_unknown_task_witness:
  "''Sweep Floor'' \<notin> dom TASK_TIME \<and> calculate_people_needed ''Sweep Floor'' (2 ^ 2000) 10 10 = Inr 1"
proof -
  have h: "''Sweep Floor'' \<notin> dom TASK_TIME" by (simp add: TASK_TIME_def domIff)
  show ?thesis using h people_needed_unknown_task[OF h, of "2 ^ 2000" 10 10] by simp
qed

text \<open>
  C9. For urgency and importance between 1 and 10 the priority factor
  \<open>(urgency * 1.5 + importance * 2) / 10\<close> lies between 0 and 3.5. The upper end is
  reached at urgency 10 and importance 10, so the factor is not confined to 0..3.
\<close>

theorem priority_factor_range:
  assumes "1 \<le> urgency" and "urgency \<le> 10" and "1 \<le> importance" and "importance \<le> 10"
  shows "\<exists>p. priority_factor urgency importance = Inr (Fin p) \<and> 0 \<le> p \<and> p \<le> 7 / 2"
proof -
  define s :: rat where "s = (of_int urgency * (3 / 2) + of_int importance * 2) / 10"
  have u: "\<bar>urgency\<bar> \<le> 2 ^ 50" and i: "\<bar>importance\<bar> \<le> 2 ^ 50" using assms by simp_all
  have pf: "priority_factor urgency importance = Inr (Fin (round_double s))"
    unfolding s_def using u i by (rule priority_factor_value(1))
  have "(1::rat) \<le> of_int urgency" "(of_int urgency :: rat) \<le> 10"
    "(1::rat) \<le> of_int importance" "(of_int importance :: rat) \<le> 10"
    using assms by simp_all
  then have s: "0 \<le> s" "s \<le> of_int 7 / 2" by (simp_all add: s_def)
  have "round_double s \<le> round_double (of_int 7 / 2)" using s(2) by (rule round_double_mono)
  also have "\<dots> = of_int 7 / 2" by (rule half_exact(1)) simp
  finally have "round_double s \<le> 7 / 2" by simp
  moreover have "0 \<le> round_double s" using s(1) by (rule round_double_nonneg)
  ultimately show ?thesis using pf by simp
qed

theorem priority_factor_range_witness:
  "(1::int) \<le> 10 \<and> (10::int) \<le> 10 \<and>
   (\<exists>p. priority_factor 10 10 = Inr (Fin p) \<and> 0 \<le> p \<and> p \<le> 7 / 2)"
proof -
  have a: "(1::int) \<le> 10" by simp
  have b: "(10::int) \<le> 10" by simp
  show ?thesis using priority_factor_range[OF a b a b] a b by blast
qed

theorem priority_factor_above_three_counterexample:
  "\<not> (\<exists>p. priority_factor 10 10 = Inr (Fin p) \<and> 0 \<le> p \<and> p \<le> 3)"
proof -
  have "round_double (of_int 7 / 2) = of_int 7 / 2" by (rule half_exact(1)) simp
  then have "round_double ((of_int 10 * (3 / 2) + of_int 10 * 2) / 10) = 7 / 2" by simp
  then have "priority_factor 10 10 = Inr (Fin (7 / 2))"
    using priority_factor_value(1)[of 10 10] by simp
  then show ?thesis by simp
qed

section \<open>Priority\<close>

text \<open>
  C2. For urgency, importance and days until due up to \<open>2 ^ 50\<close> in magnitude the priority
  computed by \<open>update_task\<close> is exactly \<open>urgency * 1.5 + importance * 2 - days * 0.5\<close>:
  nothing is clamped, and the score is negative when the days outweigh the rest. Beyond
  the integers that a double represents the score is rounded.
\<close>

theorem priority_score_exact_small:
  assumes "\<bar>urgency\<bar> \<le> 2 ^ 50" and "\<bar>importance\<bar> \<le> 2 ^ 50" and "\<bar>days_until_due\<bar> \<le> 2 ^ 50"
  shows "priority_score urgency importance days_until_due =
           Inr (Fin (of_int urgency * (3 / 2) + of_int importance * 2 - of_int days_until_due * (1 / 2)))"
  using priority_score_exact[OF assms] by (simp only: spec_priority_def)

theorem priority_score_exact_small_witness:
  "\<bar>1::int\<bar> \<le> 2 ^ 50 \<and> \<bar>8::int\<bar> \<le> 2 ^ 50 \<and> priority_score 1 1 8 = Inr (Fin (- (1 / 2)))"
proof -
  have a: "\<bar>1::int\<bar> \<le> 2 ^ 50" by simp
  have b: "\<bar>8::int\<bar> \<le> 2 ^ 50" by simp
  show ?thesis using priority_score_exact_small[OF a a b] a b by simp
qed

theorem priority_score_rounds_counterexample:
  "priority_score (2 ^ 53 + 1) 0 0 \<noteq> Inr (Fin (spec_priority (2 ^ 53 + 1) 0 0))"
proof -
  have r1: "round_double 9007199254740993 = 9007199254740992" by code_simp
  have r2: "round_double 13510798882111488 = 13510798882111488" by code_simp
  have "priority_score (2 ^ 53 + 1) 0 0 = Inr (Fin 13510798882111488)"
    by (simp add: priority_score_def int_mul_float_def float_add_int_def float_of_int_def
        float_sub_def to_double_def round_double_zero r1 r2)
  then show ?thesis by (simp add: spec_priority_def)
qed

section \<open>Update\<close>

text \<open>
  C5. When the first record whose name is the task is record \<open>i\<close>, and the urgency, the
  importance, the days until due and the quantity are up to \<open>2 ^ 500\<close> in magnitude,
  \<open>update_task\<close> computes the priority and the people needed, writes six cells of sheet
  row \<open>i + 2\<close>, one at a time and in this order: urgency to column 2, importance to
  column 3, days until due to column 4, the priority to column 5, the quantity to
  column 6 and the people needed to column 7, and returns \<open>True\<close>. With a quantity that
  overflows the staffing computation it raises before the first write.
\<close>

theorem update_task_writes_six:
  assumes "i < nrows s" and "Task (get_all_records s ! i) = CStr task"
    and "\<forall>j<i. Task (get_all_records s ! j) \<noteq> CStr task"
    and "\<bar>urgency\<bar> \<le> 2 ^ 500" and "\<bar>importance\<bar> \<le> 2 ^ 500" and "\<bar>days_until_due\<bar> \<le> 2 ^ 500"
    and "\<bar>quantity\<bar> \<le> 2 ^ 500"
  shows "\<exists>priority people_needed.
     priority_score urgency importance days_until_due = Inr priority \<and>
     calculate_people_needed task quantity urgency importance = Inr people_needed \<and>
     update_task task urgency importance days_until_due quantity s =
     (Inr True,
      s\<lparr>cells := (cells s)(i + 2 := (cells s (i + 2))
                 (2 := CInt urgency, 3 := CInt importance, 4 := CInt days_until_due,
                  5 := CFloat priority, 6 := CInt quantity, 7 := CInt people_needed)),
        writes := writes s @
                 [(i + 2, 2, CInt urgency), (i + 2, 3, CInt importance),
                  (i + 2, 4, CInt days_until_due), (i + 2, 5, CFloat priority),
                  (i + 2, 6, CInt quantity), (i + 2, 7, CInt people_needed)]\<rparr>)"
proof -
  obtain p where p: "priority_score urgency importance days_until_due = Inr (Fin p)"
    using priority_score_returns[OF assms(4-6)] by blast
  obtain n where n: "calculate_people_needed task quantity urgency importance = Inr n"
    using calculate_people_needed_total[OF assms(7,4,5)] by blast
  have "update_task task urgency importance days_until_due quantity s =
        update_row i task urgency importance days_until_due quantity s"
    using assms(1-3) by (rule update_task_first_match)
  then show ?thesis
    using p n update_row_value[OF p n, of i s] by (intro exI[of _ "Fin p"] exI[of _ n]) simp
qed

theorem update_task_writes_six_witness:
  "1 < nrows example_sheet \<and> Task (get_all_records example_sheet ! 1) = CStr ''Unload Shuttles'' \<and>
   Task (get_all_records example_sheet ! 0) \<noteq> CStr ''Unload Shuttles'' \<and>
   \<bar>8::int\<bar> \<le> 2 ^ 500 \<and> \<bar>9::int\<bar> \<le> 2 ^ 500 \<and> \<bar>1::int\<bar> \<le> 2 ^ 500 \<and> \<bar>10::int\<bar> \<le> 2 ^ 500 \<and>
   fst (update_task ''Unload Shuttles'' 8 9 1 10 example_sheet) = Inr True \<and>
   writes (snd (update_task ''Unload Shuttles'' 8 9 1 10 example_sheet)) =
     [(3, 2, CInt 8), (3, 3, CInt 9), (3, 4, CInt 1), (3, 5, CFloat (Fin (59 / 2))),
      (3, 6, CInt 10), (3, 7, CInt 2)]"
proof -
  have a: "1 < nrows example_sheet" by (simp add: nrows_example)
  have b: "Task (get_all_records example_sheet ! 1) = CStr ''Unload Shuttles''"
    by (simp add: records_example)
  have c: "\<forall>j<1. Task (get_all_records example_sheet ! j) \<noteq> CStr ''Unload Shuttles''"
    by (simp add: records_example)
  have d: "\<bar>8::int\<bar> \<le> 2 ^ 500" "\<bar>9::int\<bar> \<le> 2 ^ 500" "\<bar>1::int\<bar> \<le> 2 ^ 500" "\<bar>10::int\<bar> \<le> 2 ^ 500"
    by simp_all
  from update_task_writes_six[OF a b c d]
  show ?thesis
    using a b c d by (auto simp: priority_example people_example writes_example)
qed

theorem update_task_overflow_counterexample:
  "update_task ''Putaway 3002'' 5 5 0 (2 ^ 1040) example_sheet = (Inl OverflowError, example_sheet)"
proof -
  have t: "TASK_TIME ''Putaway 3002'' = Some 20" by (simp add: TASK_TIME_def)
  obtain b where pf: "priority_factor 5 5 = Inr (Fin b)"
    using priority_factor_value(1)[of 5 5] by simp
  have "int_truediv (2 ^ 1040 * 20) 420 = Inl OverflowError"
    by (rule int_truediv_overflow) simp_all
  then have n: "calculate_people_needed ''Putaway 3002'' (2 ^ 1040) 5 5 = Inl OverflowError"
    using t pf by (simp add: calculate_people_needed_def WORK_MINUTES_PER_WORKER_def)
  have p: "priority_score 5 5 0 = Inr (Fin (spec_priority 5 5 0))"
    by (rule priority_score_exact) simp_all
  have "update_task ''Putaway 3002'' 5 5 0 (2 ^ 1040) example_sheet =
        update_row 0 ''Putaway 3002'' 5 5 0 (2 ^ 1040) example_sheet"
    by (rule update_task_first_match) (simp_all add: nrows_example records_example)
  then show ?thesis using p n by (simp add: update_row_def)
qed

text \<open>
  C6. When no record has the task as its name, \<open>update_task\<close> returns \<open>False\<close> and the
  store is as before: no cell has changed and no write was made.
\<close>

theorem update_task_not_found:
  assumes "\<forall>row \<in> set (get_all_records s). Task row \<noteq> CStr task"
  shows "update_task task urgency importance days_until_due quantity s = (Inr False, s)"
proof -
  have "\<forall>x \<in> set (enumerate 0 (get_all_records s)). Task (snd x) \<noteq> CStr task"
    using assms by (auto simp: in_set_enumerate_eq)
  then show ?thesis by (simp add: update_task_def update_scan_no_match)
qed

theorem update_task_not_found_witness:
  "CStr ''Putaway 3043'' \<notin> Task ` set (get_all_records example_sheet) \<and>
   update_task ''Putaway 3043'' 8 9 1 10 example_sheet = (Inr False, example_sheet)"
proof -
  have h: "\<forall>row \<in> set (get_all_records example_sheet). Task row \<noteq> CStr ''Putaway 3043''"
    by (simp add: records_example)
  show ?thesis using h update_task_not_found[OF h, of 8 9 1 10] by (simp add: records_example)
qed

section \<open>Reset\<close>

text \<open>
  C7. After \<open>reset_tasks\<close> every record of the store, whatever it held and whatever its
  task, has urgency 5, importance 5, days until due 0, priority 0, quantity 0 and
  people needed 1; the number of records is unchanged.
\<close>

theorem reset_tasks_baseline:
  "length (get_all_records (reset_tasks s)) = length (get_all_records s) \<and>
   (\<forall>row \<in> set (get_all_records (reset_tasks s)).
      Urgency row = CInt 5 \<and> Importance row = CInt 5 \<and> Days_Until_Due row = CInt 0 \<and>
      Priority row = CInt 0 \<and> Quantity row = CInt 0 \<and> People_Needed row = CInt 1)"
proof
  show "length (get_all_records (reset_tasks s)) = length (get_all_records s)"
    by (simp add: length_get_all_records nrows_reset_tasks)
  show "\<forall>row \<in> set (get_all_records (reset_tasks s)).
      Urgency row = CInt 5 \<and> Importance row = CInt 5 \<and> Days_Until_Due row = CInt 0 \<and>
      Priority row = CInt 0 \<and> Quantity row = CInt 0 \<and> People_Needed row = CInt 1"
  proof
    fix row
    assume "row \<in> set (get_all_records (reset_tasks s))"
    then obtain i where i: "i < nrows s" and row: "row = record_at (reset_tasks s) i"
      by (auto simp: in_set_conv_nth length_get_all_records nrows_reset_tasks nth_get_all_records)
    show "Urgency row = CInt 5 \<and> Importance row = CInt 5 \<and> Days_Until_Due row = CInt 0 \<and>
      Priority row = CInt 0 \<and> Quantity row = CInt 0 \<and> People_Needed row = CInt 1"
      by (simp add: row record_at_reset_tasks[OF i])
  qed
qed

theorem reset_tasks_baseline_witness:
  "get_all_records (reset_tasks example_sheet) ! 1 \<in> set (get_all_records (reset_tasks example_sheet)) \<and>
   Task (get_all_records (reset_tasks example_sheet) ! 1) = CStr ''Unload Shuttles'' \<and>
   Urgency (get_all_records (reset_tasks example_sheet) ! 1) = CInt 5 \<and>
   Importance (get_all_records (reset_tasks example_sheet) ! 1) = CInt 5 \<and>
   Days_Until_Due (get_all_records (reset_tasks example_sheet) ! 1) = CInt 0 \<and>
   Priority (get_all_records (reset_tasks example_sheet) ! 1) = CInt 0 \<and>
   Quantity (get_all_records (reset_tasks example_sheet) ! 1) = CInt 0 \<and>
   People_Needed (get_all_records (reset_tasks example_sheet) ! 1) = CInt 1"
proof -
  have n: "1 < length (get_all_records (reset_tasks example_sheet))"
    by (simp add: length_get_all_records nrows_reset_tasks nrows_example)
  then have m: "get_all_records (reset_tasks example_sheet) ! 1 \<in> set (get_all_records (reset_tasks example_sheet))"
    by (rule nth_mem)
  have t: "Task (get_all_records (reset_tasks example_sheet) ! 1) = CStr ''Unload Shuttles''"
    using names_kept_records[OF names_kept_fold_reset[of example_sheet "enumerate 0 (get_all_records example_sheet)"]] n
    by (simp add: reset_tasks_def records_example flip: nth_map[of _ _ Task])
  show ?thesis
    using reset_tasks_baseline[of example_sheet] m t by blast
qed

section \<open>The names\<close>

text \<open>
  C10. Neither \<open>update_task\<close> nor \<open>reset_tasks\<close> writes to column 1: after either of
  them column 1 of every row, and so the name of every record, is what it was, and no
  write that they add to the log addresses column 1.
\<close>

theorem names_preserved:
  "(\<forall>r. cells (snd (update_task task urgency importance days_until_due quantity s)) r 1 = cells s r 1) \<and>
   (\<forall>r. cells (reset_tasks s) r 1 = cells s r 1) \<and>
   map Task (get_all_records (snd (update_task task urgency importance days_until_due quantity s))) =
     map Task (get_all_records s) \<and>
   map Task (get_all_records (reset_tasks s)) = map Task (get_all_records s) \<and>
   (\<forall>w \<in> set (drop (length (writes s))
        (writes (snd (update_task task urgency importance days_until_due quantity s)))). fst (snd w) \<noteq> 1) \<and>
   (\<forall>w \<in> set (drop (length (writes s)) (writes (reset_tasks s))). fst (snd w) \<noteq> 1)"
proof -
  have u: "names_kept s (snd (update_task task urgency importance days_until_due quantity s))"
    by (simp add: update_task_def names_kept_update_scan)
  have r: "names_kept s (reset_tasks s)"
    by (simp add: reset_tasks_def names_kept_fold_reset)
  have w: "\<forall>w \<in> set (drop (length (writes s)) (writes s')). fst (snd w) \<noteq> 1" if "names_kept s s'" for s'
    using that by (auto simp: names_kept_def)
  have c: "\<forall>r. cells s' r 1 = cells s r 1" if "names_kept s s'" for s'
    using that by (simp add: names_kept_def)
  show ?thesis
    using c[OF u] c[OF r] names_kept_records[OF u] names_kept_records[OF r] w[OF u] w[OF r]
    by blast
qed

theorem names_preserved_witness:
  "(3, 2, CInt 8) \<in> set (drop (length (writes example_sheet))
        (writes (snd (update_task ''Unload Shuttles'' 8 9 1 10 example_sheet)))) \<and>
   (2, 2, CInt 5) \<in> set (drop (length (writes example_sheet)) (writes (reset_tasks example_sheet))) \<and>
   cells (snd (update_task ''Unload Shuttles'' 8 9 1 10 example_sheet)) 3 1 = CStr ''Unload Shuttles'' \<and>
   cells (reset_tasks example_sheet) 2 1 = CStr ''Putaway 3002'' \<and>
   map Task (get_all_records (snd (update_task ''Unload Shuttles'' 8 9 1 10 example_sheet))) =
     [CStr ''Putaway 3002'', CStr ''Unload Shuttles''] \<and>
   map Task (get_all_records (reset_tasks example_sheet)) =
     [CStr ''Putaway 3002'', CStr ''Unload Shuttles'']"
proof -
  have a: "(3, 2, CInt 8) \<in> set (drop (length (writes example_sheet))
        (writes (snd (update_task ''Unload Shuttles'' 8 9 1 10 example_sheet))))"
    by (simp add: writes_update_example writes_example)
  have b: "(2, 2, CInt 5) \<in> set (drop (length (writes example_sheet)) (writes (reset_tasks example_sheet)))"
    by (simp add: writes_reset_example writes_example)
  have c: "map Task (get_all_records example_sheet) = [CStr ''Putaway 3002'', CStr ''Unload Shuttles'']"
    by (simp add: records_example)
  have d: "cells example_sheet 3 1 = CStr ''Unload Shuttles''" "cells example_sheet 2 1 = CStr ''Putaway 3002''"
    by (simp_all add: example_sheet_def sheet_of_def)
  show ?thesis
    using names_preserved[of "''Unload Shuttles''" 8 9 1 10 example_sheet] a b
    by (simp only: c d)
qed

section \<open>Load\<close>

text \<open>
  C8. On a worksheet whose integers are at most \<open>2 ^ 53\<close> in magnitude \<open>load_tasks\<close>
  returns one row for each record and coerces four columns: Priority, Quantity, Days
  Until Due and People Needed. In every loaded row each of the four is a number and is
  not NaN: where the stored value is not numeric or is missing it is the default, 0 for
  Priority, Quantity and Days Until Due and 1 for People Needed, and otherwise it is the
  number that was stored. Task, Urgency and Importance are not coerced and have no
  default: each holds the value that was stored, an integer possibly as the equal float,
  so a text in the Urgency column stays a text.
\<close>

theorem load_tasks_coerces_four:
  assumes "\<forall>row \<in> set (get_all_records s). moderate_row row" and "i < nrows s"
  shows "length (load_tasks parse s) = nrows s \<and>
     (let row = get_all_records s ! i; loaded = load_tasks parse s ! i in
      (number_of parse (Priority row) = NaN \<longrightarrow> cell_value (L_Priority loaded) = Inl (Fin 0)) \<and>
      (number_of parse (Quantity row) = NaN \<longrightarrow> cell_value (L_Quantity loaded) = Inl (Fin 0)) \<and>
      (number_of parse (Days_Until_Due row) = NaN \<longrightarrow>
         cell_value (L_Days_Until_Due loaded) = Inl (Fin 0)) \<and>
      (number_of parse (People_Needed row) = NaN \<longrightarrow>
         cell_value (L_People_Needed loaded) = Inl (Fin 1)) \<and>
      (number_of parse (Priority row) \<noteq> NaN \<longrightarrow>
         cell_value (L_Priority loaded) = Inl (number_of parse (Priority row))) \<and>
      (number_of parse (Quantity row) \<noteq> NaN \<longrightarrow>
         cell_value (L_Quantity loaded) = Inl (number_of parse (Quantity row))) \<and>
      (number_of parse (Days_Until_Due row) \<noteq> NaN \<longrightarrow>
         cell_value (L_Days_Until_Due loaded) = Inl (number_of parse (Days_Until_Due row))) \<and>
      (number_of parse (People_Needed row) \<noteq> NaN \<longrightarrow>
         cell_value (L_People_Needed loaded) = Inl (number_of parse (People_Needed row))) \<and>
      (\<exists>x. cell_value (L_Priority loaded) = Inl x \<and> x \<noteq> NaN) \<and>
      (\<exists>x. cell_value (L_Quantity loaded) = Inl x \<and> x \<noteq> NaN) \<and>
      (\<exists>x. cell_value (L_Days_Until_Due loaded) = Inl x \<and> x \<noteq> NaN) \<and>
      (\<exists>x. cell_value (L_People_Needed loaded) = Inl x \<and> x \<noteq> NaN) \<and>
      cell_value (L_Task loaded) = cell_value (Task row) \<and>
      cell_value (L_Urgency loaded) = cell_value (Urgency row) \<and>
      cell_value (L_Importance loaded) = cell_value (Importance row))"
proof -
  have k: "i < length (get_all_records s)" using assms(2) by (simp add: length_get_all_records)
  then have ne: "get_all_records s \<noteq> []" by auto
  obtain rows where rows: "load_body parse (get_all_records s) = Inr rows"
    and rest: "length rows = length (get_all_records s) \<and>
     cell_value (L_Task (rows ! i)) = cell_value (Task (get_all_records s ! i)) \<and>
     cell_value (L_Urgency (rows ! i)) = cell_value (Urgency (get_all_records s ! i)) \<and>
     cell_value (L_Importance (rows ! i)) = cell_value (Importance (get_all_records s ! i)) \<and>
     cell_value (L_Days_Until_Due (rows ! i)) =
       Inl (if number_of parse (Days_Until_Due (get_all_records s ! i)) = NaN then Fin 0
            else number_of parse (Days_Until_Due (get_all_records s ! i))) \<and>
     cell_value (L_Priority (rows ! i)) =
       Inl (if number_of parse (Priority (get_all_records s ! i)) = NaN then Fin 0
            else number_of parse (Priority (get_all_records s ! i))) \<and>
     cell_value (L_Quantity (rows ! i)) =
       Inl (if number_of parse (Quantity (get_all_records s ! i)) = NaN then Fin 0
            else number_of parse (Quantity (get_all_records s ! i))) \<and>
     cell_value (L_People_Needed (rows ! i)) =
       Inl (if number_of parse (People_Needed (get_all_records s ! i)) = NaN then Fin 1
            else number_of parse (People_Needed (get_all_records s ! i)))"
    using load_body_moderate[OF assms(1) k, of parse] by blast
  have lt: "load_tasks parse s = rows" using ne by (simp add: load_tasks_def Let_def rows)
  show ?thesis using rest by (simp add: lt Let_def length_get_all_records)
qed

theorem load_tasks_coerces_four_witness:
  "moderate_row (get_all_records example_sheet ! 0) \<and>
   moderate_row (get_all_records example_sheet ! 1) \<and>
   length (load_tasks (\<lambda>t. None) example_sheet) = 2 \<and>
   number_of (\<lambda>t. None) (Priority (get_all_records example_sheet ! 1)) = NaN \<and>
   number_of (\<lambda>t. None) (Quantity (get_all_records example_sheet ! 1)) = NaN \<and>
   number_of (\<lambda>t. None) (Days_Until_Due (get_all_records example_sheet ! 1)) = NaN \<and>
   number_of (\<lambda>t. None) (People_Needed (get_all_records example_sheet ! 1)) = NaN \<and>
   cell_value (L_Priority (load_tasks (\<lambda>t. None) example_sheet ! 1)) = Inl (Fin 0) \<and>
   cell_value (L_Quantity (load_tasks (\<lambda>t. None) example_sheet ! 1)) = Inl (Fin 0) \<and>
   cell_value (L_Days_Until_Due (load_tasks (\<lambda>t. None) example_sheet ! 1)) = Inl (Fin 0) \<and>
   cell_value (L_People_Needed (load_tasks (\<lambda>t. None) example_sheet ! 1)) = Inl (Fin 1) \<and>
   cell_value (L_Task (load_tasks (\<lambda>t. None) example_sheet ! 1)) = Inr ''Unload Shuttles'' \<and>
   cell_value (L_Importance (load_tasks (\<lambda>t. None) example_sheet ! 1)) = Inl (Fin 9) \<and>
   cell_value (L_Priority (load_tasks (\<lambda>t. None) example_sheet ! 0)) = Inl (Fin (23 / 2)) \<and>
   cell_value (L_Quantity (load_tasks (\<lambda>t. None) example_sheet ! 0)) = Inl (Fin 40) \<and>
   cell_value (L_Days_Until_Due (load_tasks (\<lambda>t. None) example_sheet ! 0)) = Inl (Fin 2) \<and>
   cell_value (L_People_Needed (load_tasks (\<lambda>t. None) example_sheet ! 0)) = Inl (Fin 3) \<and>
   cell_value (L_Urgency (load_tasks (\<lambda>t. None) example_sheet ! 0)) = Inl (Fin 3)"
proof -
  have m0: "moderate_row (get_all_records example_sheet ! 0)"
    and m1: "moderate_row (get_all_records example_sheet ! 1)"
    by (simp_all add: records_example moderate_row_def moderate_cell_def)
  have m: "\<forall>row \<in> set (get_all_records example_sheet). moderate_row row"
    by (simp add: records_example moderate_row_def moderate_cell_def)
  have a: "1 < nrows example_sheet" "0 < nrows example_sheet" by (simp_all add: nrows_example)
  have b: "number_of (\<lambda>t. None) (Priority (get_all_records example_sheet ! 1)) = NaN"
    "number_of (\<lambda>t. None) (Quantity (get_all_records example_sheet ! 1)) = NaN"
    "number_of (\<lambda>t. None) (Days_Until_Due (get_all_records example_sheet ! 1)) = NaN"
    "number_of (\<lambda>t. None) (People_Needed (get_all_records example_sheet ! 1)) = NaN"
    by (simp_all add: records_example number_of_def)
  have c: "cell_value (Task (get_all_records example_sheet ! 1)) = Inr ''Unload Shuttles''"
    "cell_value (Importance (get_all_records example_sheet ! 1)) = Inl (Fin 9)"
    "cell_value (Urgency (get_all_records example_sheet ! 0)) = Inl (Fin 3)"
    by (simp_all add: records_example cell_value_def)
  have d: "number_of (\<lambda>t. None) (Priority (get_all_records example_sheet ! 0)) = Fin (23 / 2)"
    "number_of (\<lambda>t. None) (Quantity (get_all_records example_sheet ! 0)) = Fin 40"
    "number_of (\<lambda>t. None) (Days_Until_Due (get_all_records example_sheet ! 0)) = Fin 2"
    "number_of (\<lambda>t. None) (People_Needed (get_all_records example_sheet ! 0)) = Fin 3"
    by (simp_all add: records_example number_of_def)
  show ?thesis
    using load_tasks_coerces_four[OF m a(1), of "\<lambda>t. None"]
      load_tasks_coerces_four[OF m a(2), of "\<lambda>t. None"] m0 m1 b c d
    by (simp add: Let_def nrows_example)
qed

theorem load_tasks_urgency_counterexample:
  "Urgency (get_all_records example_sheet ! 1) = CStr ''high'' \<and>
   number_of (\<lambda>t. None) (Urgency (get_all_records example_sheet ! 1)) = NaN \<and>
   L_Urgency (load_tasks (\<lambda>t. None) example_sheet ! 1) = CStr ''high''"
  by (simp add: load_example records_example number_of_def)

end
